theory Spec2Isabelle
  imports Main "HOL-Library.Word" "HOL-Library.Multiset"
begin

unbundle bit_operations_syntax

section \<open>The random image factory of waynr/image-generator\<close>

text \<open>
  The repository holds two variants of package \<open>image\<close>: the current one, whose factory
  owns a seeded \<open>*rand.Rand\<close> (field \<open>src\<close>), and the older struct-field variant that
  the command \<open>build\<close> invokes, whose factory only stores the \<open>Seed\<close>. Definitions of
  the older variant carry the suffix \<open>_legacy\<close>.
\<close>

subsection \<open>Package math/rand, as far as the factory uses it\<close>

type_synonym int64 = "64 word"
type_synonym uint = "64 word"

text \<open>
  A seeded source is a deterministic generator: the values that successive calls of
  \<open>Int63\<close> return form one fixed sequence. A \<open>Rand\<close> is that sequence together with
  the number of values already drawn.
\<close>

type_synonym source = "nat \<Rightarrow> int64"

record Rand =
  draws :: source
  pos :: nat

definition Int63 :: "Rand \<Rightarrow> int64 \<times> Rand" where
  "Int63 r = (draws r (pos r), r\<lparr>pos := Suc (pos r)\<rparr>)"

text \<open>
  What the Go standard library and the process environment contribute is a parameter
  of the model: \<open>rand.NewSource\<close>, \<open>(*Rand).Intn\<close>, \<open>path.Join\<close> and the value of
  \<open>$PWD\<close>.
\<close>

record stdlib =
  rand_NewSource :: "int64 \<Rightarrow> source"
  rand_Intn :: "int \<Rightarrow> Rand \<Rightarrow> int \<times> Rand"
  path_Join :: "string \<Rightarrow> string \<Rightarrow> string"
  env_PWD :: string

definition rand_New :: "source \<Rightarrow> Rand" where
  "rand_New s = \<lparr>draws = s, pos = 0\<rparr>"

subsection \<open>Errors\<close>

text \<open>
  \<open>errno\<close> is the cause an operating-system call reports. The error that a function of
  package \<open>os\<close> or \<open>io/ioutil\<close> returns is a \<open>*os.PathError\<close>: it names the path the
  failed operation was applied to and holds the cause (its third field, the name of the
  operation, is left out). The docker client returns errors of its own. An \<open>error\<close> of
  the program is either the value built by \<open>fmt.Errorf\<close> (the format string and the
  operands passed to it, in order) or a run-time panic.
\<close>

datatype errno = ErrNotExist | Errno nat

datatype lib_error = PathError string errno | ClientError nat

datatype operand = Str string | Err lib_error

datatype error = Errorf string "operand list" | Panic string

text \<open>\<open>os.IsNotExist\<close> looks at the cause inside a \<open>*os.PathError\<close>.\<close>

fun os_IsNotExist :: "lib_error \<Rightarrow> bool" where
  "os_IsNotExist (PathError p c) = (c = ErrNotExist)"
| "os_IsNotExist (ClientError k) = False"

text \<open>
  The verbs of a format string, in order (\<open>%%\<close> is no verb). \<open>fmt.Errorf\<close> gives the
  first operand to the first verb, the second to the second, and so on; a verb that is
  left without an operand prints a complaint and consumes nothing.
\<close>

fun verbs :: "string \<Rightarrow> char list" where
  "verbs (c # d # cs) =
     (if c = CHR ''%'' then (if d = CHR ''%'' then verbs cs else d # verbs cs)
      else verbs (d # cs))"
| "verbs cs = []"

definition consumed :: "string \<Rightarrow> operand list \<Rightarrow> (char \<times> operand) list" where
  "consumed fmt args = zip (verbs fmt) args"

text \<open>
  \<open>errors.Unwrap\<close>: the error built by \<open>fmt.Errorf\<close> wraps the error operand that the
  verb \<open>%w\<close> consumed, and nothing when \<open>%w\<close> got no error operand.
\<close>

fun Unwrap :: "error \<Rightarrow> lib_error option" where
  "Unwrap (Errorf fmt args) =
     (case filter (\<lambda>va. fst va = CHR ''w'') (consumed fmt args) of
        (v, Err e) # rest \<Rightarrow> Some e
      | _ \<Rightarrow> None)"
| "Unwrap (Panic m) = None"

subsection \<open>Constants\<close>

definition letterBytes :: string where
  "letterBytes = ''abcdefghijklmnopqrstuvwxyzABCDEFGHIJKLMNOPQRSTUVWXYZ''"

definition letterIdxBits :: nat where
  "letterIdxBits = 6"

definition letterIdxMask :: int64 where
  "letterIdxMask = push_bit letterIdxBits 1 - 1"

definition letterIdxMax :: int where
  "letterIdxMax = 63 div int letterIdxBits"

definition baseImageDir :: string where
  "baseImageDir = ''./generated-files''"

definition imageDir_legacy :: string where
  "imageDir_legacy = ''./generated-files''"

subsection \<open>randBytes\<close>

text \<open>
  The variables of the loop of \<open>randBytes\<close>: the slice \<open>b\<close>, the index \<open>i\<close>, the
  \<open>cache\<close>, the counter \<open>remain\<close> and the random source.
\<close>

record rb_state =
  rb_b :: string
  rb_i :: int
  rb_cache :: int64
  rb_remain :: int
  rb_src :: Rand

text \<open>\<^verbatim>\<open>if remain == 0 { cache, remain = src.Int63(), letterIdxMax }\<close>\<close>

definition rb_refill :: "rb_state \<Rightarrow> rb_state" where
  "rb_refill s =
     (if rb_remain s = 0
      then (let (c, r) = Int63 (rb_src s)
            in s\<lparr>rb_cache := c, rb_remain := letterIdxMax, rb_src := r\<rparr>)
      else s)"

text \<open>\<^verbatim>\<open>if idx := int(cache & letterIdxMask); idx < len(letterBytes) { b[i] = letterBytes[idx]; i-- }\<close>\<close>

definition rb_accept :: "int64 \<Rightarrow> bool" where
  "rb_accept c = (sint (c AND letterIdxMask) < int (length letterBytes))"

definition rb_pick :: "rb_state \<Rightarrow> rb_state" where
  "rb_pick s =
     (if rb_accept (rb_cache s)
      then s\<lparr>rb_b := (rb_b s)[nat (rb_i s) := letterBytes ! nat (sint (rb_cache s AND letterIdxMask))],
             rb_i := rb_i s - 1\<rparr>
      else s)"

text \<open>\<^verbatim>\<open>cache >>= letterIdxBits; remain--\<close>\<close>

definition rb_shift :: "rb_state \<Rightarrow> rb_state" where
  "rb_shift s = s\<lparr>rb_cache := signed_drop_bit letterIdxBits (rb_cache s),
                  rb_remain := rb_remain s - 1\<rparr>"

text \<open>
  The loop runs while \<open>i >= 0\<close>. Nothing in the code bounds the number of rejected
  indices, so the loop is a partial function: \<open>None\<close> is the run that never returns.
\<close>

partial_function (option) randBytes_loop :: "rb_state \<Rightarrow> (string \<times> Rand) option" where
  "randBytes_loop s =
     (if rb_i s \<ge> 0 then randBytes_loop (rb_shift (rb_pick (rb_refill s)))
      else Some (rb_b s, rb_src s))"

declare randBytes_loop.simps [code]

text \<open>
  The body shared by both variants, from a given random source: \<open>make([]byte, n)\<close>
  panics on a negative length, and the first value is drawn when the loop is entered,
  whatever \<open>n\<close> is.
\<close>

definition randBytes_from :: "int \<Rightarrow> Rand \<Rightarrow> (error + string \<times> Rand) option" where
  "randBytes_from n r =
     (if n < 0 then Some (Inl (Panic ''makeslice: len out of range''))
      else (let (c, r1) = Int63 r
            in map_option Inr
                 (randBytes_loop \<lparr>rb_b = replicate (nat n) (CHR 0x00), rb_i = n - 1,
                    rb_cache = c, rb_remain = letterIdxMax, rb_src = r1\<rparr>)))"

subsection \<open>The factories\<close>

text \<open>
  The fields that hold the logger and the cached docker client play no part in what
  follows and are left out.
\<close>

record RandomImageFactory =
  imageDir :: string
  src :: Rand
  allGeneratedFiles :: "string list"

record RandomImageFactory_legacy =
  LayerSizeKB :: uint
  LayerCount :: uint
  Seed :: int64
  Tags :: "string list"
  allGeneratedFiles_legacy :: "string list"

text \<open>The current variant draws from the factory's own source and advances it.\<close>

definition randBytes ::
  "int \<Rightarrow> RandomImageFactory \<Rightarrow> (error + string \<times> RandomImageFactory) option" where
  "randBytes n f =
     map_option (map_sum id (\<lambda>(bs, r). (bs, f\<lparr>src := r\<rparr>))) (randBytes_from n (src f))"

text \<open>The older variant builds a new source from \<open>f.Seed\<close> in every call.\<close>

definition randBytes_legacy ::
  "stdlib \<Rightarrow> int \<Rightarrow> RandomImageFactory_legacy \<Rightarrow> (error + string) option" where
  "randBytes_legacy L n f =
     map_option (map_sum id fst) (randBytes_from n (rand_New (rand_NewSource L (Seed f))))"

subsection \<open>Formatting\<close>

text \<open>The verb \<open>%d\<close> of \<open>fmt.Sprintf\<close>: decimal digits, with a sign for negative numbers.\<close>

definition digit_char :: "nat \<Rightarrow> char" where
  "digit_char d = ''0123456789'' ! d"

function showNat :: "nat \<Rightarrow> string" where
  "showNat n = (if n < 10 then [digit_char n] else showNat (n div 10) @ [digit_char (n mod 10)])"
  by pat_completeness auto
termination
  by (relation "measure id") auto

declare showNat.simps [simp del]

definition showInt :: "int \<Rightarrow> string" where
  "showInt k = (if k < 0 then ''-'' @ showNat (nat (- k)) else showNat (nat k))"

subsection \<open>The filesystem\<close>

text \<open>
  The operations the factory performs on the operating system. A filesystem holds the
  regular files (content and modification time), the directories made so far, the log of
  every operation performed, and the faults of its environment: \<open>faults fs t op p = Some k\<close>
  means that operation \<open>op\<close> on path \<open>p\<close>, when it is the \<open>t\<close>-th operation, fails with
  \<open>Errno k\<close>. Time is the number of operations performed. The log keeps the cause of a
  failed operation; the error returned is the \<open>PathError\<close> of the path and that cause.
\<close>

datatype fs_op = OpMkdirAll | OpStat | OpReadFile | OpWriteFile | OpCreate | OpOpen
  | OpTarWriteHeader | OpTarWrite | OpTarClose

record regular_file =
  content :: string
  modTime :: nat

type_synonym event = "fs_op \<times> string \<times> errno option"

record filesystem =
  files :: "string \<rightharpoonup> regular_file"
  dirs :: "string set"
  oplog :: "event list"
  faults :: "nat \<Rightarrow> fs_op \<Rightarrow> string \<Rightarrow> nat option"

definition fault :: "filesystem \<Rightarrow> fs_op \<Rightarrow> string \<Rightarrow> nat option" where
  "fault fs op p = faults fs (length (oplog fs)) op p"

definition logged :: "filesystem \<Rightarrow> fs_op \<Rightarrow> string \<Rightarrow> errno option \<Rightarrow> filesystem" where
  "logged fs op p e = fs\<lparr>oplog := oplog fs @ [(op, p, e)]\<rparr>"

definition os_MkdirAll :: "filesystem \<Rightarrow> string \<Rightarrow> filesystem \<times> lib_error option" where
  "os_MkdirAll fs p =
     (case fault fs OpMkdirAll p of
        Some k \<Rightarrow> (logged fs OpMkdirAll p (Some (Errno k)), Some (PathError p (Errno k)))
      | None \<Rightarrow> ((logged fs OpMkdirAll p None)\<lparr>dirs := insert p (dirs fs)\<rparr>, None))"

text \<open>\<open>os.Stat\<close> returns the size of the file, or the cause of the failure.\<close>

definition os_Stat :: "filesystem \<Rightarrow> string \<Rightarrow> filesystem \<times> (lib_error + int)" where
  "os_Stat fs p =
     (case fault fs OpStat p of
        Some k \<Rightarrow> (logged fs OpStat p (Some (Errno k)), Inl (PathError p (Errno k)))
      | None \<Rightarrow>
          (case files fs p of
             None \<Rightarrow> (logged fs OpStat p (Some ErrNotExist), Inl (PathError p ErrNotExist))
           | Some fl \<Rightarrow> (logged fs OpStat p None, Inr (int (length (content fl))))))"

definition ioutil_ReadFile :: "filesystem \<Rightarrow> string \<Rightarrow> filesystem \<times> (lib_error + string)" where
  "ioutil_ReadFile fs p =
     (case fault fs OpReadFile p of
        Some k \<Rightarrow> (logged fs OpReadFile p (Some (Errno k)), Inl (PathError p (Errno k)))
      | None \<Rightarrow>
          (case files fs p of
             None \<Rightarrow> (logged fs OpReadFile p (Some ErrNotExist), Inl (PathError p ErrNotExist))
           | Some fl \<Rightarrow> (logged fs OpReadFile p None, Inr (content fl))))"

definition ioutil_WriteFile :: "filesystem \<Rightarrow> string \<Rightarrow> string \<Rightarrow> filesystem \<times> lib_error option" where
  "ioutil_WriteFile fs p bs =
     (case fault fs OpWriteFile p of
        Some k \<Rightarrow> (logged fs OpWriteFile p (Some (Errno k)), Some (PathError p (Errno k)))
      | None \<Rightarrow>
          ((logged fs OpWriteFile p None)
             \<lparr>files := (files fs)(p \<mapsto> \<lparr>content = bs, modTime = length (oplog fs)\<rparr>)\<rparr>, None))"

text \<open>\<open>os.Create\<close> makes the file, or truncates the one that is there.\<close>

definition os_Create :: "filesystem \<Rightarrow> string \<Rightarrow> filesystem \<times> lib_error option" where
  "os_Create fs p =
     (case fault fs OpCreate p of
        Some k \<Rightarrow> (logged fs OpCreate p (Some (Errno k)), Some (PathError p (Errno k)))
      | None \<Rightarrow>
          ((logged fs OpCreate p None)
             \<lparr>files := (files fs)(p \<mapsto> \<lparr>content = [], modTime = length (oplog fs)\<rparr>)\<rparr>, None))"

definition os_Open :: "filesystem \<Rightarrow> string \<Rightarrow> filesystem \<times> lib_error option" where
  "os_Open fs p =
     (case fault fs OpOpen p of
        Some k \<Rightarrow> (logged fs OpOpen p (Some (Errno k)), Some (PathError p (Errno k)))
      | None \<Rightarrow>
          (case files fs p of
             None \<Rightarrow> (logged fs OpOpen p (Some ErrNotExist), Some (PathError p ErrNotExist))
           | Some fl \<Rightarrow> (logged fs OpOpen p None, None)))"

subsection \<open>Package archive/tar\<close>

text \<open>
  A tar writer holds the file it writes to and the entries written so far, header and
  body; the bytes of the tar encoding are not modelled. Every write of the writer is a
  write to that file, so the error of a failed write is the \<open>PathError\<close> of the file.
\<close>

record tar_Header =
  hdr_Name :: string
  hdr_Mode :: nat
  hdr_Size :: int

type_synonym archive = "(tar_Header \<times> string) list"

record tar_Writer =
  tw_file :: string
  tw_entries :: archive

definition tar_NewWriter :: "string \<Rightarrow> tar_Writer" where
  "tar_NewWriter name = \<lparr>tw_file = name, tw_entries = []\<rparr>"

definition tw_WriteHeader ::
  "filesystem \<Rightarrow> tar_Writer \<Rightarrow> tar_Header \<Rightarrow> filesystem \<times> tar_Writer \<times> lib_error option" where
  "tw_WriteHeader fs tw hdr =
     (case fault fs OpTarWriteHeader (tw_file tw) of
        Some k \<Rightarrow>
          (logged fs OpTarWriteHeader (tw_file tw) (Some (Errno k)), tw,
           Some (PathError (tw_file tw) (Errno k)))
      | None \<Rightarrow>
          (logged fs OpTarWriteHeader (tw_file tw) None,
           tw\<lparr>tw_entries := tw_entries tw @ [(hdr, [])]\<rparr>, None))"

text \<open>\<open>tw.Write\<close> appends to the body of the entry whose header was written last.\<close>

definition tw_Write ::
  "filesystem \<Rightarrow> tar_Writer \<Rightarrow> string \<Rightarrow> filesystem \<times> tar_Writer \<times> lib_error option" where
  "tw_Write fs tw bs =
     (case fault fs OpTarWrite (tw_file tw) of
        Some k \<Rightarrow>
          (logged fs OpTarWrite (tw_file tw) (Some (Errno k)), tw,
           Some (PathError (tw_file tw) (Errno k)))
      | None \<Rightarrow>
          (logged fs OpTarWrite (tw_file tw) None,
           tw\<lparr>tw_entries :=
                 (case rev (tw_entries tw) of [] \<Rightarrow> [] | (h, b) # es \<Rightarrow> rev es @ [(h, b @ bs)])\<rparr>,
           None))"

text \<open>\<open>tw.Close\<close> writes the trailer of the archive to the file.\<close>

definition tw_Close :: "filesystem \<Rightarrow> tar_Writer \<Rightarrow> filesystem \<times> lib_error option" where
  "tw_Close fs tw =
     (case fault fs OpTarClose (tw_file tw) of
        Some k \<Rightarrow>
          (logged fs OpTarClose (tw_file tw) (Some (Errno k)), Some (PathError (tw_file tw) (Errno k)))
      | None \<Rightarrow> (logged fs OpTarClose (tw_file tw) None, None))"

subsection \<open>createArchive\<close>

text \<open>The mode \<open>0600\<close> of the source is octal: 384.\<close>

fun createArchive_loop ::
  "filesystem \<Rightarrow> tar_Writer \<Rightarrow> string list \<Rightarrow> filesystem \<times> tar_Writer \<times> error option" where
  "createArchive_loop fs tw [] = (fs, tw, None)"
| "createArchive_loop fs tw (filePath # rest) =
     (case os_Stat fs filePath of
        (fs1, Inl err) \<Rightarrow>
          (fs1, tw, Some (Errorf ''failed to read file info %q: %w'' [Str filePath, Err err]))
      | (fs1, Inr sz) \<Rightarrow>
          (case ioutil_ReadFile fs1 filePath of
             (fs2, Inl err) \<Rightarrow>
               (fs2, tw, Some (Errorf ''failed to read file %q: %w'' [Str filePath, Err err]))
           | (fs2, Inr bs) \<Rightarrow>
               (case tw_WriteHeader fs2 tw \<lparr>hdr_Name = filePath, hdr_Mode = 384, hdr_Size = sz\<rparr> of
                  (fs3, tw1, Some err) \<Rightarrow>
                    (fs3, tw1, Some (Errorf ''failed to write tar header: %w'' [Err err]))
                | (fs3, tw1, None) \<Rightarrow>
                    (case tw_Write fs3 tw1 bs of
                       (fs4, tw2, Some err) \<Rightarrow>
                         (fs4, tw2, Some (Errorf ''failed to write tar body: %w'' [Err err]))
                     | (fs4, tw2, None) \<Rightarrow> createArchive_loop fs4 tw2 rest))))"

text \<open>
  The function returns the error; the model returns with it the disk and the entries
  that are in the archive. The deferred \<open>tw.Close()\<close> runs on every return once the
  writer exists, and the error it returns is dropped.
\<close>

definition createArchive ::
  "filesystem \<Rightarrow> string \<Rightarrow> string list \<Rightarrow> filesystem \<times> archive \<times> error option" where
  "createArchive fs name filePaths =
     (case os_Create fs name of
        (fs1, Some err) \<Rightarrow>
          (fs1, [], Some (Errorf ''failed to create tar archive %q: %w'' [Str name, Err err]))
      | (fs1, None) \<Rightarrow>
          (case createArchive_loop fs1 (tar_NewWriter name) filePaths of
             (fs2, tw, res) \<Rightarrow> (fst (tw_Close fs2 tw), tw_entries tw, res)))"

text \<open>
  The older variant passes \<open>err\<close> alone to the two formats that have both \<open>%q\<close> and
  \<open>%w\<close>: \<open>%q\<close> consumes it and \<open>%w\<close> is left without an operand.
\<close>

fun createArchive_loop_legacy ::
  "filesystem \<Rightarrow> tar_Writer \<Rightarrow> string list \<Rightarrow> filesystem \<times> tar_Writer \<times> error option" where
  "createArchive_loop_legacy fs tw [] = (fs, tw, None)"
| "createArchive_loop_legacy fs tw (filePath # rest) =
     (case os_Stat fs filePath of
        (fs1, Inl err) \<Rightarrow>
          (fs1, tw, Some (Errorf ''failed to read file info %q: %w'' [Err err]))
      | (fs1, Inr sz) \<Rightarrow>
          (case ioutil_ReadFile fs1 filePath of
             (fs2, Inl err) \<Rightarrow>
               (fs2, tw, Some (Errorf ''failed to read file %q: %w'' [Err err]))
           | (fs2, Inr bs) \<Rightarrow>
               (case tw_WriteHeader fs2 tw \<lparr>hdr_Name = filePath, hdr_Mode = 384, hdr_Size = sz\<rparr> of
                  (fs3, tw1, Some err) \<Rightarrow>
                    (fs3, tw1, Some (Errorf ''failed to write tar header: %w'' [Err err]))
                | (fs3, tw1, None) \<Rightarrow>
                    (case tw_Write fs3 tw1 bs of
                       (fs4, tw2, Some err) \<Rightarrow>
                         (fs4, tw2, Some (Errorf ''failed to write tar body: %w'' [Err err]))
                     | (fs4, tw2, None) \<Rightarrow> createArchive_loop_legacy fs4 tw2 rest))))"

definition createArchive_legacy ::
  "filesystem \<Rightarrow> string \<Rightarrow> string list \<Rightarrow> filesystem \<times> archive \<times> error option" where
  "createArchive_legacy fs name filePaths =
     (case os_Create fs name of
        (fs1, Some err) \<Rightarrow>
          (fs1, [], Some (Errorf ''failed to create tar archive %q: %w'' [Str name, Err err]))
      | (fs1, None) \<Rightarrow>
          (case createArchive_loop_legacy fs1 (tar_NewWriter name) filePaths of
             (fs2, tw, res) \<Rightarrow> (fst (tw_Close fs2 tw), tw_entries tw, res)))"

subsection \<open>shuffleGeneratedFilePaths\<close>

text \<open>
  \<^verbatim>\<open>for i := range fs { j := src.Intn(i + 1); fs[i], fs[j] = fs[j], fs[i] }\<close>
  An index outside the slice is a run-time panic.
\<close>

definition swap :: "'a list \<Rightarrow> nat \<Rightarrow> nat \<Rightarrow> 'a list" where
  "swap xs i j = xs[i := xs ! j, j := xs ! i]"

function shuffle_loop ::
  "(int \<Rightarrow> Rand \<Rightarrow> int \<times> Rand) \<Rightarrow> nat \<Rightarrow> string list \<Rightarrow> Rand \<Rightarrow> error + string list \<times> Rand" where
  "shuffle_loop intn i xs r =
     (if i < length xs
      then (case intn (int i + 1) r of
              (j, r1) \<Rightarrow>
                if 0 \<le> j \<and> j < int (length xs)
                then shuffle_loop intn (Suc i) (swap xs i (nat j)) r1
                else Inl (Panic ''index out of range''))
      else Inr (xs, r))"
  by pat_completeness auto
termination
  by (relation "measure (\<lambda>(intn, i, xs, r). length xs - i)") (auto simp: swap_def)

declare shuffle_loop.simps [simp del]

definition shuffleGeneratedFilePaths ::
  "stdlib \<Rightarrow> RandomImageFactory \<Rightarrow> error + RandomImageFactory" where
  "shuffleGeneratedFilePaths L f =
     map_sum id (\<lambda>(xs, r). f\<lparr>src := r, allGeneratedFiles := xs\<rparr>)
       (shuffle_loop (rand_Intn L) 0 (allGeneratedFiles f) (src f))"

text \<open>
  The older variant calls the package-level \<open>rand.Intn\<close>: the source is the global one
  of the process, passed here explicitly, and the factory's seed plays no part.
\<close>

definition shuffleGeneratedFilePaths_legacy ::
  "stdlib \<Rightarrow> Rand \<Rightarrow> RandomImageFactory_legacy \<Rightarrow> error + RandomImageFactory_legacy \<times> Rand" where
  "shuffleGeneratedFilePaths_legacy L g f =
     map_sum id (\<lambda>(xs, r). (f\<lparr>allGeneratedFiles_legacy := xs\<rparr>, r))
       (shuffle_loop (rand_Intn L) 0 (allGeneratedFiles_legacy f) g)"

subsection \<open>generateRandomFilePool\<close>

definition NewRandomImageFactory :: "stdlib \<Rightarrow> int64 \<Rightarrow> RandomImageFactory" where
  "NewRandomImageFactory L seed =
     \<lparr>imageDir = path_Join L baseImageDir (showInt (sint seed)),
      src = rand_New (rand_NewSource L seed),
      allGeneratedFiles = []\<rparr>"

text \<open>\<^verbatim>\<open>path.Join(dir, fmt.Sprintf("random_%dKB_%d.txt", layerSizeKB, i))\<close>\<close>

definition poolPath :: "stdlib \<Rightarrow> string \<Rightarrow> uint \<Rightarrow> nat \<Rightarrow> string" where
  "poolPath L dir layerSizeKB i =
     path_Join L dir (''random_'' @ showNat (unat layerSizeKB) @ ''KB_'' @ showNat i @ ''.txt'')"

text \<open>\<^verbatim>\<open>1024*int(layerSizeKB)\<close>, in 64-bit arithmetic.\<close>

definition poolFileLen :: "uint \<Rightarrow> int" where
  "poolFileLen layerSizeKB = sint (1024 * layerSizeKB)"

function pool_loop ::
  "stdlib \<Rightarrow> uint \<Rightarrow> nat \<Rightarrow> nat \<Rightarrow> filesystem \<Rightarrow> RandomImageFactory
   \<Rightarrow> (filesystem \<times> RandomImageFactory \<times> error option) option" where
  "pool_loop L layerSizeKB layerCount i fs f =
     (if i < layerCount
      then (let filePath = poolPath L (imageDir f) layerSizeKB i;
                f1 = f\<lparr>allGeneratedFiles := allGeneratedFiles f @ [filePath]\<rparr>
            in case os_Stat fs filePath of
                 (fs1, Inr info) \<Rightarrow> pool_loop L layerSizeKB layerCount (Suc i) fs1 f1
               | (fs1, Inl err) \<Rightarrow>
                   if \<not> os_IsNotExist err
                   then Some (fs1, f1, Some (Errorf ''error checking if file exists: %w'' [Err err]))
                   else (case randBytes (poolFileLen layerSizeKB) f1 of
                           None \<Rightarrow> None
                         | Some (Inl panic) \<Rightarrow> Some (fs1, f1, Some panic)
                         | Some (Inr (bs, f2)) \<Rightarrow>
                             (case ioutil_WriteFile fs1 filePath bs of
                                (fs2, Some err2) \<Rightarrow>
                                  Some (fs2, f2, Some (Errorf ''error writing random bytes to file: %w'' [Err err2]))
                              | (fs2, None) \<Rightarrow> pool_loop L layerSizeKB layerCount (Suc i) fs2 f2)))
      else Some (fs, f, None))"
  by pat_completeness auto
termination
  by (relation "measure (\<lambda>(L, layerSizeKB, layerCount, i, fs, f). layerCount - i)") auto

declare pool_loop.simps [simp del]

definition generateRandomFilePool ::
  "stdlib \<Rightarrow> filesystem \<Rightarrow> RandomImageFactory \<Rightarrow> uint \<Rightarrow> uint
   \<Rightarrow> (filesystem \<times> RandomImageFactory \<times> error option) option" where
  "generateRandomFilePool L fs f layerSizeKB layerCount =
     (case os_MkdirAll fs (imageDir f) of
        (fs1, Some err) \<Rightarrow>
          Some (fs1, f, Some (Errorf ''failed creating directory %q: %w'' [Str (imageDir f), Err err]))
      | (fs1, None) \<Rightarrow> pool_loop L layerSizeKB (unat layerCount) 0 fs1 f)"

function pool_loop_legacy ::
  "stdlib \<Rightarrow> nat \<Rightarrow> filesystem \<Rightarrow> RandomImageFactory_legacy
   \<Rightarrow> (filesystem \<times> RandomImageFactory_legacy \<times> error option) option" where
  "pool_loop_legacy L i fs f =
     (if i < unat (LayerCount f)
      then (let filePath = poolPath L imageDir_legacy (LayerSizeKB f) i;
                f1 = f\<lparr>allGeneratedFiles_legacy := allGeneratedFiles_legacy f @ [filePath]\<rparr>
            in case os_Stat fs filePath of
                 (fs1, Inr info) \<Rightarrow> pool_loop_legacy L (Suc i) fs1 f1
               | (fs1, Inl err) \<Rightarrow>
                   if \<not> os_IsNotExist err
                   then Some (fs1, f1, Some (Errorf ''error checking if file exists: %w'' [Err err]))
                   else (case randBytes_legacy L (poolFileLen (LayerSizeKB f1)) f1 of
                           None \<Rightarrow> None
                         | Some (Inl panic) \<Rightarrow> Some (fs1, f1, Some panic)
                         | Some (Inr bs) \<Rightarrow>
                             (case ioutil_WriteFile fs1 filePath bs of
                                (fs2, Some err2) \<Rightarrow>
                                  Some (fs2, f1, Some (Errorf ''error writing random bytes to file: %w'' [Err err2]))
                              | (fs2, None) \<Rightarrow> pool_loop_legacy L (Suc i) fs2 f1)))
      else Some (fs, f, None))"
  by pat_completeness auto
termination
  by (relation "measure (\<lambda>(L, i, fs, f). unat (LayerCount f) - i)") auto

declare pool_loop_legacy.simps [simp del]

definition generateRandomFilePool_legacy ::
  "stdlib \<Rightarrow> filesystem \<Rightarrow> RandomImageFactory_legacy
   \<Rightarrow> (filesystem \<times> RandomImageFactory_legacy \<times> error option) option" where
  "generateRandomFilePool_legacy L fs f =
     (case os_MkdirAll fs imageDir_legacy of
        (fs1, Some err) \<Rightarrow>
          Some (fs1, f, Some (Errorf ''failed creating directory %q: %w'' [Str imageDir_legacy, Err err]))
      | (fs1, None) \<Rightarrow> pool_loop_legacy L 0 fs1 f)"

subsection \<open>generateDockerfile\<close>

definition newline :: char where
  "newline = CHR 0x0A"

definition dockerfileName :: string where
  "dockerfileName = ''./dockerfile.generated''"

definition dockerfileText :: "string list \<Rightarrow> string" where
  "dockerfileText filePaths =
     foldl (\<lambda>dockerFile p. dockerFile @ ''ADD '' @ p @ '' /opt'' @ [newline])
       (''FROM scratch'' @ [newline]) filePaths"

definition generateDockerfile :: "filesystem \<Rightarrow> string list \<Rightarrow> filesystem \<times> (error + string)" where
  "generateDockerfile fs filePaths =
     (case ioutil_WriteFile fs dockerfileName (dockerfileText filePaths) of
        (fs1, Some err) \<Rightarrow>
          (fs1, Inl (Errorf ''failed to write to %q: %w'' [Str dockerfileName, Err err]))
      | (fs1, None) \<Rightarrow> (fs1, Inr dockerfileName))"

subsection \<open>GenerateImage\<close>

text \<open>
  The build daemon is outside the repository: whether a client can be made, and whether
  the build of an archive succeeds, are parameters.
\<close>

record docker =
  docker_NewEnvClient :: "lib_error option"
  docker_ImageBuild :: "archive \<Rightarrow> string \<Rightarrow> string list \<Rightarrow> lib_error option"

definition GenerateImage ::
  "stdlib \<Rightarrow> docker \<Rightarrow> filesystem \<Rightarrow> RandomImageFactory \<Rightarrow> uint \<Rightarrow> uint \<Rightarrow> string list
   \<Rightarrow> (filesystem \<times> RandomImageFactory \<times> archive \<times> error option) option" where
  "GenerateImage L D fs f layerSizeKB layerCount tags =
     (case generateRandomFilePool L fs f layerSizeKB layerCount of
        None \<Rightarrow> None
      | Some (fs1, f1, Some err) \<Rightarrow> Some (fs1, f1, [], Some err)
      | Some (fs1, f1, None) \<Rightarrow>
          (case shuffleGeneratedFilePaths L f1 of
             Inl panic \<Rightarrow> Some (fs1, f1, [], Some panic)
           | Inr f2 \<Rightarrow>
               (case generateDockerfile fs1 (allGeneratedFiles f2) of
                  (fs2, Inl err) \<Rightarrow> Some (fs2, f2, [], Some err)
                | (fs2, Inr dockerfilePath) \<Rightarrow>
                    (let tarFile = path_Join L (env_PWD L) ''context.tar'';
                         files = allGeneratedFiles f2 @ [dockerfilePath]
                     in case createArchive fs2 tarFile files of
                          (fs3, tw, Some err) \<Rightarrow> Some (fs3, f2, tw, Some err)
                        | (fs3, tw, None) \<Rightarrow>
                            (case docker_NewEnvClient D of
                               Some err \<Rightarrow>
                                 Some (fs3, f2, tw,
                                   Some (Errorf ''failed to initialized docker client: %w'' [Err err]))
                             | None \<Rightarrow>
                                 (case os_Open fs3 tarFile of
                                    (fs4, Some err) \<Rightarrow>
                                      Some (fs4, f2, tw,
                                        Some (Errorf ''failed to open tarball %s: %w'' [Str tarFile, Err err]))
                                  | (fs4, None) \<Rightarrow>
                                      (case docker_ImageBuild D tw dockerfilePath tags of
                                         Some err \<Rightarrow>
                                           Some (fs4, f2, tw,
                                             Some (Errorf ''failed to build image: %w'' [Err err]))
                                       | None \<Rightarrow> Some (fs4, f2, tw, None))))))))"

subsection \<open>Notions used to state the properties\<close>

text \<open>
  When does the loop return? A drawn value is usable when one of its ten 6-bit groups is
  an index into \<open>letterBytes\<close>; a source is productive when usable values never stop
  coming. \<open>rb_hit k s\<close> says that, from the loop state \<open>s\<close>, one of the next \<open>k\<close>
  groups is accepted.
\<close>

definition usable :: "int64 \<Rightarrow> bool" where
  "usable w = (\<exists>k\<in>{..<10}. rb_accept (signed_drop_bit (letterIdxBits * k) w))"

definition productive :: "source \<Rightarrow> bool" where
  "productive d = (\<forall>p. \<exists>q\<ge>p. usable (d q))"

fun rb_hit :: "nat \<Rightarrow> rb_state \<Rightarrow> bool" where
  "rb_hit 0 s = False"
| "rb_hit (Suc k) s =
     (rb_accept (rb_cache (rb_refill s)) \<or> rb_hit k (rb_shift (rb_refill s)))"

definition is_letter :: "char \<Rightarrow> bool" where
  "is_letter c = (let k = (of_char c :: nat) in (97 \<le> k \<and> k \<le> 122) \<or> (65 \<le> k \<and> k \<le> 90))"

text \<open>
  The documented contract of \<open>Intn\<close>: for positive \<open>n\<close> the result lies in \<open>[0, n)\<close>.
\<close>

definition intn_ok :: "(int \<Rightarrow> Rand \<Rightarrow> int \<times> Rand) \<Rightarrow> bool" where
  "intn_ok intn = (\<forall>n r. 0 < n \<longrightarrow> 0 \<le> fst (intn n r) \<and> fst (intn n r) < n)"

text \<open>
  The Fisher-Yates shuffle as the specification words it, independently of the code.
  \<open>exchanged xs i j\<close> is the list that has the old element \<open>j\<close> at position \<open>i\<close>, the
  old element \<open>i\<close> at position \<open>j\<close>, and every other element where it was.
  \<open>fisher_yates xs i js\<close> exchanges, for positions \<open>i\<close>, \<open>i + 1\<close>, ... in turn, the
  element at the position with the element at the next index of \<open>js\<close>.
  \<open>drawn_indices intn i n r\<close> are the indices that \<open>Intn(i + 1)\<close>, \<open>Intn(i + 2)\<close>, ...,
  \<open>Intn(n)\<close> return when drawn one after the other from the source \<open>r\<close>.
\<close>

definition exchanged :: "'a list \<Rightarrow> nat \<Rightarrow> nat \<Rightarrow> 'a list" where
  "exchanged xs i j =
     map (\<lambda>k. if k = i then xs ! j else if k = j then xs ! i else xs ! k) [0..<length xs]"

fun fisher_yates :: "'a list \<Rightarrow> nat \<Rightarrow> nat list \<Rightarrow> 'a list" where
  "fisher_yates xs i [] = xs"
| "fisher_yates xs i (j # js) = fisher_yates (exchanged xs i j) (Suc i) js"

function drawn_indices :: "(int \<Rightarrow> Rand \<Rightarrow> int \<times> Rand) \<Rightarrow> nat \<Rightarrow> nat \<Rightarrow> Rand \<Rightarrow> nat list" where
  "drawn_indices intn i n r =
     (if i < n
      then (case intn (int i + 1) r of (j, r1) \<Rightarrow> nat j # drawn_indices intn (Suc i) n r1)
      else [])"
  by pat_completeness auto
termination
  by (relation "measure (\<lambda>(intn, i, n, r). n - i)") auto

declare drawn_indices.simps [simp del]

text \<open>
  Two sources have the same stream when the values still to be drawn from them are the
  same, one after the other.
\<close>

definition same_stream :: "Rand \<Rightarrow> Rand \<Rightarrow> bool" where
  "same_stream r1 r2 = (\<forall>k. draws r1 (pos r1 + k) = draws r2 (pos r2 + k))"

text \<open>
  Two disks hold the same pool files when each of the paths of the pool is on both or on
  neither.
\<close>

definition same_pool_files ::
  "stdlib \<Rightarrow> string \<Rightarrow> uint \<Rightarrow> nat \<Rightarrow> filesystem \<Rightarrow> filesystem \<Rightarrow> bool" where
  "same_pool_files L dir layerSizeKB n fsA fsB =
     (\<forall>k<n. (files fsA (poolPath L dir layerSizeKB k) = None)
              = (files fsB (poolPath L dir layerSizeKB k) = None))"

text \<open>The lines of a text, each ended by a newline (the last one possibly not).\<close>

fun lines_of :: "string \<Rightarrow> string list" where
  "lines_of [] = []"
| "lines_of (c # cs) =
     (if c = newline then [] # lines_of cs
      else (case lines_of cs of [] \<Rightarrow> [[c]] | l # ls \<Rightarrow> (c # l) # ls))"

definition headerLine :: string where
  "headerLine = ''FROM scratch''"

definition directive :: "string \<Rightarrow> string" where
  "directive p = ''ADD '' @ p @ '' /opt''"

text \<open>The write operations attempted so far, and those on one path.\<close>

definition writes :: "filesystem \<Rightarrow> event list" where
  "writes fs = filter (\<lambda>ev. fst ev = OpWriteFile) (oplog fs)"

definition writes_to :: "string \<Rightarrow> filesystem \<Rightarrow> event list" where
  "writes_to p fs = filter (\<lambda>ev. fst (snd ev) = p) (writes fs)"

text \<open>
  Notions for the handling of failures. An error carries a cause when the error it wraps
  (what \<open>errors.Unwrap\<close> returns) holds that cause, and it carries a path when the
  wrapped error names that path or when the path is an operand that a verb of the format
  prints. An event succeeded when it logged no cause; during pool generation a stat that
  reports that the file does not exist is benign as well. \<open>returned_at_failure benign r evs\<close>
  relates what a function returned (\<open>r\<close>) to the operations it performed (\<open>evs\<close>):
  without an error every operation was benign; with an error that is not a panic the
  last operation is the one that failed, every operation before it was benign, and the
  error carries the cause of the failure and the path the failed operation was applied
  to. \<open>artifacts_kept\<close> says that every file written or created is still on disk, and
  \<open>checked\<close> leaves out the deferred close of the tar writer, whose error the code
  drops.
\<close>

fun operands :: "error \<Rightarrow> operand list" where
  "operands (Errorf fmt args) = map snd (consumed fmt args)"
| "operands (Panic m) = []"

definition carries_path :: "error \<Rightarrow> string \<Rightarrow> bool" where
  "carries_path e p =
     ((case Unwrap e of Some (PathError q c) \<Rightarrow> q = p | _ \<Rightarrow> False) \<or> Str p \<in> set (operands e))"

definition carries_cause :: "error \<Rightarrow> errno \<Rightarrow> bool" where
  "carries_cause e c = (case Unwrap e of Some (PathError q c') \<Rightarrow> c' = c | _ \<Rightarrow> False)"

definition succeeded :: "event \<Rightarrow> bool" where
  "succeeded ev = (snd (snd ev) = None)"

definition pool_benign :: "event \<Rightarrow> bool" where
  "pool_benign ev = (succeeded ev \<or> (fst ev = OpStat \<and> snd (snd ev) = Some ErrNotExist))"

definition returned_at_failure :: "(event \<Rightarrow> bool) \<Rightarrow> error option \<Rightarrow> event list \<Rightarrow> bool" where
  "returned_at_failure benign r evs =
     (case r of
        None \<Rightarrow> list_all benign evs
      | Some e \<Rightarrow>
          (\<exists>m. e = Panic m \<and> list_all benign evs)
          \<or> (\<exists>op p c. evs \<noteq> [] \<and> last evs = (op, p, Some c) \<and> \<not> benign (last evs)
                \<and> list_all benign (butlast evs) \<and> carries_cause e c \<and> carries_path e p
                \<and> Unwrap e = Some (PathError p c)))"

definition artifacts_kept :: "event list \<Rightarrow> filesystem \<Rightarrow> bool" where
  "artifacts_kept evs fs =
     (\<forall>ev\<in>set evs. (fst ev = OpWriteFile \<or> fst ev = OpCreate) \<and> succeeded ev
        \<longrightarrow> files fs (fst (snd ev)) \<noteq> None)"

definition checked :: "event list \<Rightarrow> event list" where
  "checked evs = filter (\<lambda>ev. fst ev \<noteq> OpTarClose) evs"

text \<open>The source as one call of \<open>randBytes\<close> for \<open>n\<close> bytes leaves it.\<close>

definition next_src :: "int \<Rightarrow> Rand \<Rightarrow> Rand" where
  "next_src n r = (case randBytes_from n r of Some (Inr (bs, r')) \<Rightarrow> r' | _ \<Rightarrow> r)"

subsection \<open>Concrete inputs\<close>

text \<open>A toy standard library, for running the model on concrete inputs.\<close>

definition toy_source :: "int64 \<Rightarrow> source" where
  "toy_source seed = (\<lambda>k. drop_bit 1 (0x5DEECE66D * (seed + of_nat k) + 0xB))"

definition toy_Intn :: "int \<Rightarrow> Rand \<Rightarrow> int \<times> Rand" where
  "toy_Intn n r = (let (v, r') = Int63 r in (uint v mod n, r'))"

definition toy_lib :: stdlib where
  "toy_lib = \<lparr>rand_NewSource = toy_source, rand_Intn = toy_Intn,
              path_Join = (\<lambda>d n. d @ ''/'' @ n), env_PWD = ''/work''\<rparr>"

text \<open>A source whose every other value has no usable group, and two factories on it.\<close>

definition alt_source :: source where
  "alt_source = (\<lambda>k. if even k then 0x7FFFFFFFFFFFFFFF else 0x0123456789ABCDEF)"

definition factory_a :: RandomImageFactory where
  "factory_a = \<lparr>imageDir = ''generated-files/7'', src = rand_New alt_source, allGeneratedFiles = []\<rparr>"

text \<open>A factory on the toy source of seed 7 that lists three files.\<close>

definition factory_c :: RandomImageFactory where
  "factory_c = \<lparr>imageDir = ''elsewhere'', src = rand_New (toy_source 7),
                 allGeneratedFiles = [''x'', ''y'', ''z'']\<rparr>"

definition legacy_a :: RandomImageFactory_legacy where
  "legacy_a = \<lparr>LayerSizeKB = 1, LayerCount = 2, Seed = 4848484, Tags = [],
                allGeneratedFiles_legacy = []\<rparr>"

definition legacy_b :: RandomImageFactory_legacy where
  "legacy_b = \<lparr>LayerSizeKB = 3, LayerCount = 5, Seed = 99, Tags = [''t''],
                allGeneratedFiles_legacy = []\<rparr>"

text \<open>An empty disk on which nothing fails, and a daemon that accepts every archive.\<close>

definition empty_fs :: filesystem where
  "empty_fs = \<lparr>files = Map.empty, dirs = {}, oplog = [], faults = (\<lambda>t op p. None)\<rparr>"

definition toy_docker :: docker where
  "toy_docker = \<lparr>docker_NewEnvClient = None, docker_ImageBuild = (\<lambda>tw d tags. None)\<rparr>"

text \<open>The toy library with the source of \<open>alt_source\<close> for every seed.\<close>

definition alt_lib :: stdlib where
  "alt_lib = toy_lib\<lparr>rand_NewSource := (\<lambda>seed. alt_source)\<rparr>"

text \<open>
  A disk that holds one file outside the pool and has a history, a disk on which every
  stat and every write of a file fails, and a disk that holds one file and on which only
  the close of a tar writer fails.
\<close>

definition other_fs :: filesystem where
  "other_fs = empty_fs\<lparr>files := [''notes.txt'' \<mapsto> \<lparr>content = ''n'', modTime = 0\<rparr>],
                         oplog := [(OpStat, ''notes.txt'', None)]\<rparr>"

definition failing_fs :: filesystem where
  "failing_fs =
     empty_fs\<lparr>faults := (\<lambda>t op p. if op = OpStat \<or> op = OpWriteFile then Some 13 else None)\<rparr>"

definition close_fails_fs :: filesystem where
  "close_fails_fs =
     empty_fs\<lparr>files := [''a'' \<mapsto> \<lparr>content = ''abc'', modTime = 0\<rparr>],
              faults := (\<lambda>t op p. if op = OpTarClose then Some 28 else None)\<rparr>"

section \<open>Length and alphabet of the generated bytes\<close>

lemma letterIdxMax_val: "letterIdxMax = 10"
  by (simp add: letterIdxMax_def letterIdxBits_def)

lemma rb_refill_idem: "rb_refill (rb_refill s) = rb_refill s"
  by (simp add: rb_refill_def Int63_def letterIdxMax_val)

lemma rb_refill_pos: "0 < rb_remain s \<Longrightarrow> rb_refill s = s"
  by (simp add: rb_refill_def)

lemma rb_hit_refill: "rb_hit k (rb_refill s) = rb_hit k s"
  by (cases k) (simp_all add: rb_refill_idem)

lemma rb_hit_mono: "rb_hit k s \<Longrightarrow> rb_hit (k + m) s"
  by (induction k arbitrary: s) auto

lemma rb_shift_funpow:
  "rb_remain ((rb_shift ^^ m) s) = rb_remain s - int m \<and> rb_src ((rb_shift ^^ m) s) = rb_src s
   \<and> rb_cache ((rb_shift ^^ m) s) = (signed_drop_bit letterIdxBits ^^ m) (rb_cache s)
   \<and> rb_b ((rb_shift ^^ m) s) = rb_b s \<and> rb_i ((rb_shift ^^ m) s) = rb_i s"
  by (induction m) (simp_all add: rb_shift_def)

lemma sdb_funpow: "(signed_drop_bit a ^^ k) (w::int64) = signed_drop_bit (a * k) w"
  by (induction k) (simp_all add: algebra_simps)

lemma rb_hit_within:
  "int k < rb_remain s \<Longrightarrow> rb_accept ((signed_drop_bit letterIdxBits ^^ k) (rb_cache s))
   \<Longrightarrow> rb_hit (Suc k) s"
proof (induction k arbitrary: s)
  case 0
  then show ?case by (simp add: rb_refill_pos)
next
  case (Suc k)
  have r: "rb_refill s = s" using Suc.prems(1) by (simp add: rb_refill_pos)
  have "rb_hit (Suc k) (rb_shift s)"
  proof (rule Suc.IH)
    show "int k < rb_remain (rb_shift s)" using Suc.prems(1) by (simp add: rb_shift_def)
    show "rb_accept ((signed_drop_bit letterIdxBits ^^ k) (rb_cache (rb_shift s)))"
      using Suc.prems(2) by (simp add: rb_shift_def funpow_swap1)
  qed
  then show ?case using r by simp
qed

lemma rb_hit_skip:
  "rb_remain s = int m \<Longrightarrow> rb_hit k ((rb_shift ^^ m) s) \<Longrightarrow> rb_hit (k + m) s"
proof (induction m arbitrary: s)
  case 0
  then show ?case by simp
next
  case (Suc m)
  have r: "rb_refill s = s" using Suc.prems(1) by (simp add: rb_refill_pos)
  have "rb_hit (k + m) (rb_shift s)"
  proof (rule Suc.IH)
    show "rb_remain (rb_shift s) = int m" using Suc.prems(1) by (simp add: rb_shift_def)
    show "rb_hit k ((rb_shift ^^ m) (rb_shift s))"
      using Suc.prems(2) by (simp add: funpow_swap1)
  qed
  then show ?case using r by simp
qed

lemma rb_hit_empty:
  "rb_remain s = 0 \<Longrightarrow> pos (rb_src s) + n = q \<Longrightarrow> usable (draws (rb_src s) q)
   \<Longrightarrow> rb_hit (10 * n + 10) s"
proof (induction n arbitrary: s)
  case 0
  let ?s1 = "rb_refill s"
  have c: "rb_cache ?s1 = draws (rb_src s) q" and m: "rb_remain ?s1 = 10"
    using "0.prems" by (simp_all add: rb_refill_def Int63_def letterIdxMax_val)
  from "0.prems"(3) obtain k where k: "k < 10"
    and a: "rb_accept ((signed_drop_bit letterIdxBits ^^ k) (draws (rb_src s) q))"
    by (auto simp: usable_def sdb_funpow)
  have "rb_hit (Suc k) ?s1"
    by (rule rb_hit_within) (use k a c m in simp_all)
  then have "rb_hit (Suc k + (9 - k)) ?s1" by (rule rb_hit_mono)
  then show ?case using k by (simp add: rb_hit_refill)
next
  case (Suc n)
  let ?s1 = "rb_refill s"
  let ?s2 = "(rb_shift ^^ 10) ?s1"
  have m: "rb_remain ?s1 = int 10" and p: "pos (rb_src ?s1) = Suc (pos (rb_src s))"
    and d: "draws (rb_src ?s1) = draws (rb_src s)"
    using Suc.prems by (simp_all add: rb_refill_def Int63_def letterIdxMax_val)
  have "rb_hit (10 * n + 10) ?s2"
  proof (rule Suc.IH)
    show "rb_remain ?s2 = 0" using m by (simp add: rb_shift_funpow)
    show "pos (rb_src ?s2) + n = q" using p Suc.prems(2) by (simp add: rb_shift_funpow)
    show "usable (draws (rb_src ?s2) q)" using d Suc.prems(3) by (simp add: rb_shift_funpow)
  qed
  then have "rb_hit (10 * n + 10 + 10) ?s1" using m by (rule rb_hit_skip[rotated])
  then show ?case by (simp add: rb_hit_refill)
qed

lemma rb_hit_productive:
  assumes "productive (draws (rb_src s))" and "0 \<le> rb_remain s"
  shows "\<exists>k. rb_hit k s"
proof -
  define m where "m = nat (rb_remain s)"
  let ?s2 = "(rb_shift ^^ m) s"
  have m: "rb_remain s = int m" using assms(2) by (simp add: m_def)
  from assms(1) obtain q where q: "pos (rb_src s) \<le> q" "usable (draws (rb_src s) q)"
    unfolding productive_def by blast
  have "rb_hit (10 * (q - pos (rb_src s)) + 10) ?s2"
  proof (rule rb_hit_empty)
    show "rb_remain ?s2 = 0" using m by (simp add: rb_shift_funpow)
    show "pos (rb_src ?s2) + (q - pos (rb_src s)) = q" using q(1) by (simp add: rb_shift_funpow)
    show "usable (draws (rb_src ?s2) q)" using q(2) by (simp add: rb_shift_funpow)
  qed
  then have "rb_hit (10 * (q - pos (rb_src s)) + 10 + m) s" using m by (rule rb_hit_skip[rotated])
  then show ?thesis ..
qed


lemma letterIdxMask_val: "letterIdxMask = 63"
  by (simp add: letterIdxMask_def letterIdxBits_def)

lemma idx_bounds: "0 \<le> sint (c AND letterIdxMask) \<and> sint (c AND letterIdxMask) \<le> 63"
proof -
  have "c AND 63 \<le> 63" by (rule word_and_le1)
  then have u: "uint (c AND 63) \<le> 63" by (simp add: word_le_def)
  have "sint (c AND 63) = signed_take_bit 63 (uint (c AND 63))"
    by (simp add: sint_uint)
  also have "\<dots> = uint (c AND 63)"
  proof (rule signed_take_bit_int_eq_self)
    have "0 \<le> uint (c AND 63)" by simp
    moreover have "- (2 ^ 63) \<le> (0::int)" by simp
    ultimately show "- (2 ^ 63) \<le> uint (c AND 63)" by (rule order_trans [rotated])
    show "uint (c AND 63) < 2 ^ 63" using u by simp
  qed
  finally have "sint (c AND 63) = uint (c AND 63)" .
  moreover have "0 \<le> uint (c AND 63)" by simp
  ultimately show ?thesis using u by (simp add: letterIdxMask_val)
qed

lemma length_letterBytes: "length letterBytes = 52"
  by (simp add: letterBytes_def)

lemma rb_refill_props:
  "0 \<le> rb_remain s \<Longrightarrow>
   0 < rb_remain (rb_refill s) \<and> draws (rb_src (rb_refill s)) = draws (rb_src s)
   \<and> pos (rb_src s) \<le> pos (rb_src (rb_refill s)) \<and> rb_b (rb_refill s) = rb_b s
   \<and> rb_i (rb_refill s) = rb_i s"
  by (auto simp: rb_refill_def Int63_def letterIdxMax_val)

lemma rb_progress:
  "rb_hit k s \<Longrightarrow> 0 \<le> rb_i s \<Longrightarrow> 0 \<le> rb_remain s \<Longrightarrow>
   \<exists>s' x. randBytes_loop s = randBytes_loop s' \<and> rb_i s' = rb_i s - 1
     \<and> rb_b s' = (rb_b s)[nat (rb_i s) := x] \<and> x \<in> set letterBytes
     \<and> 0 \<le> rb_remain s' \<and> draws (rb_src s') = draws (rb_src s)
     \<and> pos (rb_src s) \<le> pos (rb_src s')"
proof (induction k arbitrary: s)
  case 0
  then show ?case by simp
next
  case (Suc k)
  let ?s1 = "rb_refill s"
  note p = rb_refill_props [OF Suc.prems(3)]
  have unf: "randBytes_loop s = randBytes_loop (rb_shift (rb_pick ?s1))"
    using Suc.prems(2) by (subst randBytes_loop.simps) simp
  show ?case
  proof (cases "rb_accept (rb_cache ?s1)")
    case True
    let ?x = "letterBytes ! nat (sint (rb_cache ?s1 AND letterIdxMask))"
    let ?s' = "rb_shift (rb_pick ?s1)"
    have "nat (sint (rb_cache ?s1 AND letterIdxMask)) < length letterBytes"
      using True idx_bounds [of "rb_cache ?s1"] by (simp add: rb_accept_def length_letterBytes)
    then have x: "?x \<in> set letterBytes" by (rule nth_mem)
    have "rb_i ?s' = rb_i s - 1" "rb_b ?s' = (rb_b s)[nat (rb_i s) := ?x]"
      "0 \<le> rb_remain ?s'" "draws (rb_src ?s') = draws (rb_src s)"
      "pos (rb_src s) \<le> pos (rb_src ?s')"
      using True p by (simp_all add: rb_shift_def rb_pick_def)
    with unf x show ?thesis by blast
  next
    case False
    let ?s2 = "rb_shift ?s1"
    have pk: "rb_pick ?s1 = ?s1" using False by (simp add: rb_pick_def)
    have h: "rb_hit k ?s2" using Suc.prems(1) False by simp
    have i2: "0 \<le> rb_i ?s2" and m2: "0 \<le> rb_remain ?s2"
      using p Suc.prems(2) by (simp_all add: rb_shift_def)
    from Suc.IH [OF h i2 m2] obtain s' x where
      "randBytes_loop ?s2 = randBytes_loop s'" "rb_i s' = rb_i ?s2 - 1"
      "rb_b s' = (rb_b ?s2)[nat (rb_i ?s2) := x]" "x \<in> set letterBytes"
      "0 \<le> rb_remain s'" "draws (rb_src s') = draws (rb_src ?s2)"
      "pos (rb_src ?s2) \<le> pos (rb_src s')" by blast
    then have "randBytes_loop s = randBytes_loop s'" "rb_i s' = rb_i s - 1"
      "rb_b s' = (rb_b s)[nat (rb_i s) := x]" "x \<in> set letterBytes"
      "0 \<le> rb_remain s'" "draws (rb_src s') = draws (rb_src s)"
      "pos (rb_src s) \<le> pos (rb_src s')"
      using unf pk p by (simp_all add: rb_shift_def)
    then show ?thesis by blast
  qed
qed

lemma randBytes_loop_returns:
  "rb_i s = int k - 1 \<Longrightarrow> k \<le> length (rb_b s) \<Longrightarrow> 0 \<le> rb_remain s
   \<Longrightarrow> productive (draws (rb_src s)) \<Longrightarrow>
   \<exists>bs r. randBytes_loop s = Some (bs, r) \<and> length bs = length (rb_b s)
     \<and> (\<forall>j<k. bs ! j \<in> set letterBytes)
     \<and> (\<forall>j\<ge>k. j < length bs \<longrightarrow> bs ! j = rb_b s ! j)
     \<and> draws r = draws (rb_src s) \<and> pos (rb_src s) \<le> pos r"
proof (induction k arbitrary: s)
  case 0
  then have "randBytes_loop s = Some (rb_b s, rb_src s)"
    by (subst randBytes_loop.simps) simp
  then show ?case by simp
next
  case (Suc k)
  have i: "0 \<le> rb_i s" using Suc.prems(1) by simp
  from rb_hit_productive [OF Suc.prems(4) Suc.prems(3)] obtain h where "rb_hit h s" ..
  from rb_progress [OF this i Suc.prems(3)] obtain s' x where
    s': "randBytes_loop s = randBytes_loop s'" "rb_i s' = rb_i s - 1"
      "rb_b s' = (rb_b s)[nat (rb_i s) := x]" "x \<in> set letterBytes"
      "0 \<le> rb_remain s'" "draws (rb_src s') = draws (rb_src s)"
      "pos (rb_src s) \<le> pos (rb_src s')" by blast
  have ni: "nat (rb_i s) = k" using Suc.prems(1) by simp
  have "\<exists>bs r. randBytes_loop s' = Some (bs, r) \<and> length bs = length (rb_b s')
     \<and> (\<forall>j<k. bs ! j \<in> set letterBytes)
     \<and> (\<forall>j\<ge>k. j < length bs \<longrightarrow> bs ! j = rb_b s' ! j)
     \<and> draws r = draws (rb_src s') \<and> pos (rb_src s') \<le> pos r"
  proof (rule Suc.IH)
    show "rb_i s' = int k - 1" using s'(2) Suc.prems(1) by simp
    show "k \<le> length (rb_b s')" using s'(3) Suc.prems(2) by simp
    show "0 \<le> rb_remain s'" by (rule s'(5))
    show "productive (draws (rb_src s'))" using s'(6) Suc.prems(4) by simp
  qed
  then obtain bs r where r: "randBytes_loop s' = Some (bs, r)" "length bs = length (rb_b s')"
     "\<forall>j<k. bs ! j \<in> set letterBytes"
     "\<forall>j\<ge>k. j < length bs \<longrightarrow> bs ! j = rb_b s' ! j"
     "draws r = draws (rb_src s')" "pos (rb_src s') \<le> pos r" by blast
  have len: "length bs = length (rb_b s)" using r(2) s'(3) by simp
  have "bs ! k = x" using r(4) r(2) s'(3) ni Suc.prems(2) by simp
  then have low: "\<forall>j<Suc k. bs ! j \<in> set letterBytes"
    using r(3) s'(4) by (auto simp: less_Suc_eq)
  have high: "\<forall>j\<ge>Suc k. j < length bs \<longrightarrow> bs ! j = rb_b s ! j"
    using r(4) s'(3) ni by simp
  show ?case using s'(1) r(1) len low high r(5) r(6) s'(6) s'(7) by simp
qed

lemma letterBytes_letters: "\<forall>c\<in>set letterBytes. is_letter c"
  by (simp add: letterBytes_def is_letter_def)

lemma randBytes_from_returns:
  assumes "0 \<le> n" and "productive (draws r)"
  shows "\<exists>bs r'. randBytes_from n r = Some (Inr (bs, r')) \<and> int (length bs) = n
     \<and> set bs \<subseteq> set letterBytes \<and> draws r' = draws r \<and> pos r < pos r'"
proof -
  let ?s = "\<lparr>rb_b = replicate (nat n) (CHR 0x00), rb_i = n - 1, rb_cache = draws r (pos r),
             rb_remain = letterIdxMax, rb_src = r\<lparr>pos := Suc (pos r)\<rparr>\<rparr>"
  have "\<exists>bs r'. randBytes_loop ?s = Some (bs, r') \<and> length bs = length (rb_b ?s)
     \<and> (\<forall>j<nat n. bs ! j \<in> set letterBytes)
     \<and> (\<forall>j\<ge>nat n. j < length bs \<longrightarrow> bs ! j = rb_b ?s ! j)
     \<and> draws r' = draws (rb_src ?s) \<and> pos (rb_src ?s) \<le> pos r'"
    by (rule randBytes_loop_returns) (use assms in \<open>simp_all add: letterIdxMax_val\<close>)
  then obtain bs r' where l: "randBytes_loop ?s = Some (bs, r')" "length bs = nat n"
    "\<forall>j<nat n. bs ! j \<in> set letterBytes" "draws r' = draws r" "Suc (pos r) \<le> pos r'"
    by auto
  have "set bs \<subseteq> set letterBytes"
    using l(2) l(3) by (auto simp: in_set_conv_nth)
  then show ?thesis
    using assms(1) l by (simp add: randBytes_from_def Int63_def)
qed

text \<open>
  C2. For every requested length \<open>n \<ge> 0\<close>, and every factory whose random source is
  productive, \<open>randBytes\<close> returns a slice of exactly \<open>n\<close> bytes, each of them one of
  the 52 distinct symbols of \<open>letterBytes\<close>, which are the letters a-z and A-Z (no
  digit, no other character).
\<close>

theorem randBytes_length_alphabet:
  assumes "0 \<le> n" and "productive (draws (src f))"
  shows "\<exists>bs f'. randBytes n f = Some (Inr (bs, f')) \<and> int (length bs) = n
     \<and> (\<forall>c\<in>set bs. c \<in> set letterBytes \<and> is_letter c)
     \<and> length letterBytes = 52 \<and> distinct letterBytes"
proof -
  from randBytes_from_returns [OF assms] obtain bs r' where
    r: "randBytes_from n (src f) = Some (Inr (bs, r'))" "int (length bs) = n"
       "set bs \<subseteq> set letterBytes" by blast
  have "randBytes n f = Some (Inr (bs, f\<lparr>src := r'\<rparr>))"
    using r(1) by (simp add: randBytes_def)
  moreover have "\<forall>c\<in>set bs. c \<in> set letterBytes \<and> is_letter c"
    using r(3) letterBytes_letters by blast
  moreover have "distinct letterBytes" by (simp add: letterBytes_def)
  ultimately show ?thesis using r(2) length_letterBytes by blast
qed

lemma usable_alt: "usable 0x0123456789ABCDEF"
  unfolding usable_def
  by (rule bexI [of _ 0]) (simp_all add: rb_accept_def letterIdxMask_val length_letterBytes)

lemma productive_alt_source: "productive alt_source"
  unfolding productive_def
proof
  fix p :: nat
  have "p \<le> Suc (2 * p)" by simp
  moreover have "usable (alt_source (Suc (2 * p)))"
    using usable_alt by (simp add: alt_source_def)
  ultimately show "\<exists>q\<ge>p. usable (alt_source q)" by blast
qed

theorem randBytes_length_alphabet_witness:
  "(0::int) \<le> 4 \<and> productive (draws (src factory_a))
   \<and> (\<exists>bs f'. randBytes 4 factory_a = Some (Inr (bs, f')) \<and> int (length bs) = 4
     \<and> (\<forall>c\<in>set bs. c \<in> set letterBytes \<and> is_letter c)
     \<and> length letterBytes = 52 \<and> distinct letterBytes)"
proof -
  have p: "productive (draws (src factory_a))"
    using productive_alt_source by (simp add: factory_a_def rand_New_def)
  have n: "(0::int) \<le> 4" by simp
  show ?thesis using n p randBytes_length_alphabet [OF n p] by simp
qed

section \<open>The shuffler\<close>

lemma mset_swap_list: "i < length xs \<Longrightarrow> j < length xs \<Longrightarrow> mset (swap xs i j) = mset xs"
  by (simp add: swap_def mset_swap)

lemma length_swap [simp]: "length (swap xs i j) = length xs"
  by (simp add: swap_def)

text \<open>The assignment of the code is the exchange of the specification.\<close>

lemma swap_exchanged:
  assumes "i < length xs" and "j < length xs"
  shows "swap xs i j = exchanged xs i j"
proof (rule nth_equalityI)
  show "length (swap xs i j) = length (exchanged xs i j)" by (simp add: exchanged_def)
next
  fix k assume "k < length (swap xs i j)"
  then have k: "k < length xs" by simp
  show "swap xs i j ! k = exchanged xs i j ! k"
    using k assms by (simp add: swap_def exchanged_def nth_list_update)
qed

lemma drawn_indices_step:
  "i < n \<Longrightarrow> intn (int i + 1) r = (j, r1)
   \<Longrightarrow> drawn_indices intn i n r = nat j # drawn_indices intn (Suc i) n r1"
  by (subst drawn_indices.simps) simp

lemma drawn_indices_done: "\<not> i < n \<Longrightarrow> drawn_indices intn i n r = []"
  by (subst drawn_indices.simps) simp

lemma shuffle_loop_ok:
  "intn_ok intn \<Longrightarrow> i \<le> length xs \<Longrightarrow>
   \<exists>ys r'. shuffle_loop intn i xs r = Inr (ys, r') \<and> mset ys = mset xs
     \<and> length ys = length xs
     \<and> length (drawn_indices intn i (length xs) r) = length xs - i
     \<and> (\<forall>k<length xs - i. drawn_indices intn i (length xs) r ! k \<le> i + k)
     \<and> ys = fisher_yates xs i (drawn_indices intn i (length xs) r)"
proof (induction intn i xs r rule: shuffle_loop.induct)
  case (1 intn i xs r)
  show ?case
  proof (cases "i < length xs")
    case False
    then have "shuffle_loop intn i xs r = Inr (xs, r)" by (subst shuffle_loop.simps) simp
    moreover have "drawn_indices intn i (length xs) r = []"
      using False by (rule drawn_indices_done)
    ultimately show ?thesis using False by simp
  next
    case True
    obtain j r1 where jr: "intn (int i + 1) r = (j, r1)" by (cases "intn (int i + 1) r")
    have "0 < int i + 1" by simp
    with "1.prems"(1) have "0 \<le> fst (intn (int i + 1) r) \<and> fst (intn (int i + 1) r) < int i + 1"
      unfolding intn_ok_def by blast
    then have j: "0 \<le> j" "j < int i + 1" using jr by simp_all
    have inr: "0 \<le> j \<and> j < int (length xs)" using j True by simp
    let ?xs1 = "swap xs i (nat j)"
    let ?js1 = "drawn_indices intn (Suc i) (length xs) r1"
    have nj: "nat j \<le> i" "nat j < length xs" using j True by simp_all
    have dr: "drawn_indices intn i (length xs) r = nat j # ?js1"
      using True jr by (rule drawn_indices_step)
    have "\<exists>ys r'. shuffle_loop intn (Suc i) ?xs1 r1 = Inr (ys, r') \<and> mset ys = mset ?xs1
       \<and> length ys = length ?xs1
       \<and> length (drawn_indices intn (Suc i) (length ?xs1) r1) = length ?xs1 - Suc i
       \<and> (\<forall>k<length ?xs1 - Suc i. drawn_indices intn (Suc i) (length ?xs1) r1 ! k \<le> Suc i + k)
       \<and> ys = fisher_yates ?xs1 (Suc i) (drawn_indices intn (Suc i) (length ?xs1) r1)"
      using True by (intro "1.IH" [OF True jr [symmetric] inr] "1.prems"(1)) simp
    then obtain ys r' where
      h: "shuffle_loop intn (Suc i) ?xs1 r1 = Inr (ys, r')" "mset ys = mset ?xs1"
         "length ys = length xs" "length ?js1 = length xs - Suc i"
         "\<forall>k<length xs - Suc i. ?js1 ! k \<le> Suc i + k" "ys = fisher_yates ?xs1 (Suc i) ?js1"
      by auto
    have 1: "shuffle_loop intn i xs r = Inr (ys, r')"
      using True jr inr h(1) by (subst shuffle_loop.simps) simp
    have 2: "mset ys = mset xs" using h(2) True nj by (simp add: mset_swap_list)
    have 4: "length (drawn_indices intn i (length xs) r) = length xs - i"
      using h(4) True dr by simp
    have 5: "\<forall>k<length xs - i. drawn_indices intn i (length xs) r ! k \<le> i + k"
    proof (intro allI impI)
      fix k assume k: "k < length xs - i"
      show "drawn_indices intn i (length xs) r ! k \<le> i + k"
      proof (cases k)
        case 0
        then show ?thesis using nj dr by simp
      next
        case (Suc k')
        then have "k' < length xs - Suc i" using k by simp
        with h(5) have "?js1 ! k' \<le> Suc i + k'" by blast
        then show ?thesis using Suc dr by simp
      qed
    qed
    have "?xs1 = exchanged xs i (nat j)" using True nj(2) by (rule swap_exchanged)
    then have 6: "ys = fisher_yates xs i (drawn_indices intn i (length xs) r)"
      using h(6) dr by simp
    from 1 2 h(3) 4 5 6 show ?thesis by blast
  qed
qed

text \<open>
  C5. When \<open>Intn\<close> keeps its contract, the shuffler returns without a panic, and the
  list it leaves is the Fisher-Yates shuffle of the input list: for \<open>i\<close> from 0 to
  \<open>len - 1\<close>, the element at position \<open>i\<close> is exchanged with the element at the index
  that \<open>Intn(i + 1)\<close> returned, the indices being drawn one after the other from the
  factory's source, so that the \<open>i\<close>-th index lies in \<open>[0, i]\<close>. The result has the
  same length and the same multiset of elements as the input.
\<close>

theorem shuffle_is_permutation:
  assumes "intn_ok (rand_Intn L)"
  shows "\<exists>f'. shuffleGeneratedFilePaths L f = Inr f'
     \<and> allGeneratedFiles f'
         = fisher_yates (allGeneratedFiles f) 0
             (drawn_indices (rand_Intn L) 0 (length (allGeneratedFiles f)) (src f))
     \<and> length (drawn_indices (rand_Intn L) 0 (length (allGeneratedFiles f)) (src f))
         = length (allGeneratedFiles f)
     \<and> (\<forall>k<length (allGeneratedFiles f).
           drawn_indices (rand_Intn L) 0 (length (allGeneratedFiles f)) (src f) ! k \<le> k)
     \<and> mset (allGeneratedFiles f') = mset (allGeneratedFiles f)
     \<and> length (allGeneratedFiles f') = length (allGeneratedFiles f)"
proof -
  let ?xs = "allGeneratedFiles f"
  let ?js = "drawn_indices (rand_Intn L) 0 (length ?xs) (src f)"
  from shuffle_loop_ok [OF assms, of 0 ?xs "src f"] obtain ys r' where
    h: "shuffle_loop (rand_Intn L) 0 ?xs (src f) = Inr (ys, r')" "mset ys = mset ?xs"
       "length ys = length ?xs" "length ?js = length ?xs"
       "\<forall>k<length ?xs. ?js ! k \<le> k" "ys = fisher_yates ?xs 0 ?js"
    by auto
  let ?f' = "f\<lparr>src := r', allGeneratedFiles := ys\<rparr>"
  have A: "shuffleGeneratedFilePaths L f = Inr ?f'"
    using h(1) by (simp add: shuffleGeneratedFilePaths_def)
  have B: "allGeneratedFiles ?f' = fisher_yates ?xs 0 ?js" using h(6) by simp
  have C: "mset (allGeneratedFiles ?f') = mset ?xs" using h(2) by simp
  have D: "length (allGeneratedFiles ?f') = length ?xs" using h(3) by simp
  show ?thesis by (rule exI [of _ ?f']) (intro conjI A B h(4) h(5) C D)
qed

lemma intn_ok_toy: "intn_ok (rand_Intn toy_lib)"
  by (simp add: intn_ok_def toy_lib_def toy_Intn_def Int63_def)

lemma factory_c_indices:
  "drawn_indices (rand_Intn toy_lib) 0 (length (allGeneratedFiles factory_c)) (src factory_c)
   = [0, 1, 1]"
  by code_simp

lemma factory_c_shuffled:
  "fisher_yates (allGeneratedFiles factory_c) 0 [0, 1, 1] = [''x'', ''z'', ''y'']"
  by code_simp

theorem shuffle_is_permutation_witness:
  "intn_ok (rand_Intn toy_lib)
   \<and> (\<exists>f'. shuffleGeneratedFilePaths toy_lib factory_c = Inr f'
        \<and> allGeneratedFiles factory_c = [''x'', ''y'', ''z'']
        \<and> drawn_indices (rand_Intn toy_lib) 0 3 (src factory_c) = [0, 1, 1]
        \<and> allGeneratedFiles f' = [''x'', ''z'', ''y'']
        \<and> mset (allGeneratedFiles f') = mset (allGeneratedFiles factory_c))"
proof -
  from shuffle_is_permutation [OF intn_ok_toy, of factory_c] obtain f' where
    h: "shuffleGeneratedFilePaths toy_lib factory_c = Inr f'"
       "allGeneratedFiles f'
         = fisher_yates (allGeneratedFiles factory_c) 0
             (drawn_indices (rand_Intn toy_lib) 0 (length (allGeneratedFiles factory_c)) (src factory_c))"
       "mset (allGeneratedFiles f') = mset (allGeneratedFiles factory_c)"
    by blast
  have l: "allGeneratedFiles factory_c = [''x'', ''y'', ''z'']" by (simp add: factory_c_def)
  have n: "length (allGeneratedFiles factory_c) = 3" by (simp add: l)
  have i: "drawn_indices (rand_Intn toy_lib) 0 3 (src factory_c) = [0, 1, 1]"
    using factory_c_indices by (simp only: n)
  have r: "allGeneratedFiles f' = [''x'', ''z'', ''y'']"
    using h(2) by (simp only: factory_c_indices factory_c_shuffled)
  from intn_ok_toy h(1) l i r h(3) show ?thesis by blast
qed

section \<open>The manifest\<close>

lemma dockerfileText_foldl:
  "foldl (\<lambda>dockerFile p. dockerFile @ ''ADD '' @ p @ '' /opt'' @ [newline]) acc ps
   = acc @ concat (map (\<lambda>p. directive p @ [newline]) ps)"
  by (induction ps arbitrary: acc) (simp_all add: directive_def)

lemma dockerfileText_concat:
  "dockerfileText ps = concat (map (\<lambda>l. l @ [newline]) (headerLine # map directive ps))"
  unfolding dockerfileText_def dockerfileText_foldl
  by (simp add: headerLine_def comp_def)

lemma lines_of_line: "newline \<notin> set l \<Longrightarrow> lines_of (l @ newline # rest) = l # lines_of rest"
  by (induction l) auto

lemma lines_of_concat:
  "\<forall>l\<in>set ls. newline \<notin> set l \<Longrightarrow> lines_of (concat (map (\<lambda>l. l @ [newline]) ls)) = ls"
  by (induction ls) (simp_all add: lines_of_line)

lemma generateDockerfile_writes:
  "fault fs OpWriteFile dockerfileName = None \<Longrightarrow>
   \<exists>fs'. generateDockerfile fs ps = (fs', Inr dockerfileName)
     \<and> map_option content (files fs' dockerfileName) = Some (dockerfileText ps)"
  by (simp add: generateDockerfile_def ioutil_WriteFile_def logged_def)

text \<open>
  C7. The manifest text is the fixed header line \<open>FROM scratch\<close> followed by one line
  \<open>ADD <path> /opt\<close> per file path, in the order of the list, every line ended by a
  newline; for the empty list it is the header line alone. When no path contains a
  newline these are exactly the lines of the text, and when the write does not fail this
  text is the content of \<open>./dockerfile.generated\<close>.
\<close>

theorem manifest_lines:
  "dockerfileText ps = concat (map (\<lambda>l. l @ [newline]) (headerLine # map directive ps))
   \<and> dockerfileText [] = headerLine @ [newline]
   \<and> ((\<forall>p\<in>set ps. newline \<notin> set p) \<longrightarrow>
        lines_of (dockerfileText ps) = headerLine # map directive ps)
   \<and> (fault fs OpWriteFile dockerfileName = None \<longrightarrow>
        (\<exists>fs'. generateDockerfile fs ps = (fs', Inr dockerfileName)
           \<and> map_option content (files fs' dockerfileName) = Some (dockerfileText ps)))"
proof (intro conjI impI)
  show "dockerfileText ps = concat (map (\<lambda>l. l @ [newline]) (headerLine # map directive ps))"
    by (rule dockerfileText_concat)
  show "dockerfileText [] = headerLine @ [newline]"
    by (simp add: dockerfileText_def headerLine_def)
next
  assume np: "\<forall>p\<in>set ps. newline \<notin> set p"
  have "\<forall>l\<in>set (headerLine # map directive ps). newline \<notin> set l"
    using np by (auto simp: headerLine_def directive_def newline_def)
  then show "lines_of (dockerfileText ps) = headerLine # map directive ps"
    unfolding dockerfileText_concat by (rule lines_of_concat)
next
  assume "fault fs OpWriteFile dockerfileName = None"
  then show "\<exists>fs'. generateDockerfile fs ps = (fs', Inr dockerfileName)
     \<and> map_option content (files fs' dockerfileName) = Some (dockerfileText ps)"
    by (rule generateDockerfile_writes)
qed

theorem manifest_lines_witness:
  "newline \<notin> set ''a/f0'' \<and> newline \<notin> set ''a/f1''
   \<and> lines_of (dockerfileText [''a/f0'', ''a/f1''])
       = [''FROM scratch'', ''ADD a/f0 /opt'', ''ADD a/f1 /opt'']
   \<and> fault empty_fs OpWriteFile dockerfileName = None
   \<and> (\<exists>fs'. generateDockerfile empty_fs [''a/f0'', ''a/f1''] = (fs', Inr dockerfileName)
         \<and> map_option content (files fs' dockerfileName) = Some (dockerfileText [''a/f0'', ''a/f1'']))"
proof -
  have a: "\<forall>p\<in>set [''a/f0'', ''a/f1'']. newline \<notin> set p" by (simp add: newline_def)
  have b: "fault empty_fs OpWriteFile dockerfileName = None" by (simp add: fault_def empty_fs_def)
  note m = manifest_lines [of "[''a/f0'', ''a/f1'']" empty_fs]
  have "lines_of (dockerfileText [''a/f0'', ''a/f1'']) = headerLine # map directive [''a/f0'', ''a/f1'']"
    using m a by blast
  then have l: "lines_of (dockerfileText [''a/f0'', ''a/f1''])
       = [''FROM scratch'', ''ADD a/f0 /opt'', ''ADD a/f1 /opt'']"
    by (simp add: headerLine_def directive_def)
  have w: "\<exists>fs'. generateDockerfile empty_fs [''a/f0'', ''a/f1''] = (fs', Inr dockerfileName)
         \<and> map_option content (files fs' dockerfileName) = Some (dockerfileText [''a/f0'', ''a/f1''])"
    using m b by blast
  have a': "newline \<notin> set ''a/f0'' \<and> newline \<notin> set ''a/f1''" using a by simp
  from a' l b w show ?thesis by blast
qed

section \<open>One iteration of the loops\<close>

lemma pool_loop_done: "\<not> i < cnt \<Longrightarrow> pool_loop L sz cnt i fs f = Some (fs, f, None)"
  by (subst pool_loop.simps) simp

lemma os_Stat_IsNotExist:
  "os_Stat fs p = (fs1, Inl err) \<Longrightarrow> os_IsNotExist err \<Longrightarrow> err = PathError p ErrNotExist"
  by (auto simp: os_Stat_def split: option.splits)

lemma pool_loop_cases [consumes 2, case_names exists stat_err panic write_err written]:
  assumes run: "pool_loop L sz cnt i fs f = Some res" and lt: "i < cnt"
  obtains
    (exists) fs1 info where
      "os_Stat fs (poolPath L (imageDir f) sz i) = (fs1, Inr info)"
      "pool_loop L sz cnt (Suc i) fs1
         (f\<lparr>allGeneratedFiles := allGeneratedFiles f @ [poolPath L (imageDir f) sz i]\<rparr>) = Some res"
  | (stat_err) fs1 err where
      "os_Stat fs (poolPath L (imageDir f) sz i) = (fs1, Inl err)" "\<not> os_IsNotExist err"
      "res = (fs1, f\<lparr>allGeneratedFiles := allGeneratedFiles f @ [poolPath L (imageDir f) sz i]\<rparr>,
              Some (Errorf ''error checking if file exists: %w'' [Err err]))"
  | (panic) fs1 e where
      "os_Stat fs (poolPath L (imageDir f) sz i)
         = (fs1, Inl (PathError (poolPath L (imageDir f) sz i) ErrNotExist))"
      "randBytes (poolFileLen sz)
         (f\<lparr>allGeneratedFiles := allGeneratedFiles f @ [poolPath L (imageDir f) sz i]\<rparr>) = Some (Inl e)"
      "res = (fs1, f\<lparr>allGeneratedFiles := allGeneratedFiles f @ [poolPath L (imageDir f) sz i]\<rparr>, Some e)"
  | (write_err) fs1 bs f2 fs2 err where
      "os_Stat fs (poolPath L (imageDir f) sz i)
         = (fs1, Inl (PathError (poolPath L (imageDir f) sz i) ErrNotExist))"
      "randBytes (poolFileLen sz)
         (f\<lparr>allGeneratedFiles := allGeneratedFiles f @ [poolPath L (imageDir f) sz i]\<rparr>) = Some (Inr (bs, f2))"
      "ioutil_WriteFile fs1 (poolPath L (imageDir f) sz i) bs = (fs2, Some err)"
      "res = (fs2, f2, Some (Errorf ''error writing random bytes to file: %w'' [Err err]))"
  | (written) fs1 bs f2 fs2 where
      "os_Stat fs (poolPath L (imageDir f) sz i)
         = (fs1, Inl (PathError (poolPath L (imageDir f) sz i) ErrNotExist))"
      "randBytes (poolFileLen sz)
         (f\<lparr>allGeneratedFiles := allGeneratedFiles f @ [poolPath L (imageDir f) sz i]\<rparr>) = Some (Inr (bs, f2))"
      "ioutil_WriteFile fs1 (poolPath L (imageDir f) sz i) bs = (fs2, None)"
      "pool_loop L sz cnt (Suc i) fs2 f2 = Some res"
proof -
  let ?p = "poolPath L (imageDir f) sz i"
  let ?f1 = "f\<lparr>allGeneratedFiles := allGeneratedFiles f @ [?p]\<rparr>"
  obtain fs1 st where st: "os_Stat fs ?p = (fs1, st)" by (cases "os_Stat fs ?p")
  have u: "(case st of
              Inr info \<Rightarrow> pool_loop L sz cnt (Suc i) fs1 ?f1
            | Inl err \<Rightarrow>
                if \<not> os_IsNotExist err
                then Some (fs1, ?f1, Some (Errorf ''error checking if file exists: %w'' [Err err]))
                else (case randBytes (poolFileLen sz) ?f1 of
                        None \<Rightarrow> None
                      | Some (Inl panic) \<Rightarrow> Some (fs1, ?f1, Some panic)
                      | Some (Inr (bs, f2)) \<Rightarrow>
                          (case ioutil_WriteFile fs1 ?p bs of
                             (fs2, Some err2) \<Rightarrow>
                               Some (fs2, f2, Some (Errorf ''error writing random bytes to file: %w'' [Err err2]))
                           | (fs2, None) \<Rightarrow> pool_loop L sz cnt (Suc i) fs2 f2))) = Some res"
    using run lt st by (subst (asm) pool_loop.simps) (simp add: Let_def)
  show thesis
  proof (cases st)
    case (Inr info)
    with u st show thesis by (intro exists [of fs1 info]) simp_all
  next
    case (Inl err)
    show thesis
    proof (cases "os_IsNotExist err")
      case False
      with u st Inl show thesis by (intro stat_err [of fs1 err]) simp_all
    next
      case True
      note ne = True
      have pe: "err = PathError ?p ErrNotExist"
        using st ne unfolding Inl by (rule os_Stat_IsNotExist)
      have st': "os_Stat fs ?p = (fs1, Inl (PathError ?p ErrNotExist))"
        using st Inl pe by simp
      from u Inl ne obtain rb where rb: "randBytes (poolFileLen sz) ?f1 = Some rb"
        by (cases "randBytes (poolFileLen sz) ?f1") simp_all
      show thesis
      proof (cases rb)
        case (Inl e)
        with u st' \<open>st = Inl err\<close> ne rb show thesis by (intro panic [of fs1 e]) simp_all
      next
        case (Inr pr)
        obtain bs f2 where pr: "pr = (bs, f2)" by (cases pr)
        obtain fs2 w where w: "ioutil_WriteFile fs1 ?p bs = (fs2, w)"
          by (cases "ioutil_WriteFile fs1 ?p bs")
        show thesis
        proof (cases w)
          case None
          with u st' \<open>st = Inl err\<close> ne rb Inr pr w show thesis
            by (intro written [of fs1 bs f2 fs2]) simp_all
        next
          case (Some err2)
          with u st' \<open>st = Inl err\<close> ne rb Inr pr w show thesis
            by (intro write_err [of fs1 bs f2 fs2 err2]) simp_all
        qed
      qed
    qed
  qed
qed

lemma createArchive_loop_cases [consumes 1, case_names stat_err read_err header_err body_err added]:
  assumes run: "createArchive_loop fs tw (p # rest) = res"
  obtains
    (stat_err) fs1 err where
      "os_Stat fs p = (fs1, Inl err)"
      "res = (fs1, tw, Some (Errorf ''failed to read file info %q: %w'' [Str p, Err err]))"
  | (read_err) fs1 sz fs2 err where
      "os_Stat fs p = (fs1, Inr sz)" "ioutil_ReadFile fs1 p = (fs2, Inl err)"
      "res = (fs2, tw, Some (Errorf ''failed to read file %q: %w'' [Str p, Err err]))"
  | (header_err) fs1 sz fs2 bs fs3 tw1 err where
      "os_Stat fs p = (fs1, Inr sz)" "ioutil_ReadFile fs1 p = (fs2, Inr bs)"
      "tw_WriteHeader fs2 tw \<lparr>hdr_Name = p, hdr_Mode = 384, hdr_Size = sz\<rparr> = (fs3, tw1, Some err)"
      "res = (fs3, tw1, Some (Errorf ''failed to write tar header: %w'' [Err err]))"
  | (body_err) fs1 sz fs2 bs fs3 tw1 fs4 tw2 err where
      "os_Stat fs p = (fs1, Inr sz)" "ioutil_ReadFile fs1 p = (fs2, Inr bs)"
      "tw_WriteHeader fs2 tw \<lparr>hdr_Name = p, hdr_Mode = 384, hdr_Size = sz\<rparr> = (fs3, tw1, None)"
      "tw_Write fs3 tw1 bs = (fs4, tw2, Some err)"
      "res = (fs4, tw2, Some (Errorf ''failed to write tar body: %w'' [Err err]))"
  | (added) fs1 sz fs2 bs fs3 tw1 fs4 tw2 where
      "os_Stat fs p = (fs1, Inr sz)" "ioutil_ReadFile fs1 p = (fs2, Inr bs)"
      "tw_WriteHeader fs2 tw \<lparr>hdr_Name = p, hdr_Mode = 384, hdr_Size = sz\<rparr> = (fs3, tw1, None)"
      "tw_Write fs3 tw1 bs = (fs4, tw2, None)"
      "createArchive_loop fs4 tw2 rest = res"
proof -
  obtain fs1 st where st: "os_Stat fs p = (fs1, st)" by (cases "os_Stat fs p")
  show thesis
  proof (cases st)
    case (Inl err)
    with run st show thesis by (intro stat_err [of fs1 err]) simp_all
  next
    case (Inr sz)
    note sz = Inr
    obtain fs2 rd where rd: "ioutil_ReadFile fs1 p = (fs2, rd)" by (cases "ioutil_ReadFile fs1 p")
    show thesis
    proof (cases rd)
      case (Inl err)
      with run st sz rd show thesis by (intro read_err [of fs1 sz fs2 err]) simp_all
    next
      case (Inr bs)
      note bs = Inr
      let ?h = "\<lparr>hdr_Name = p, hdr_Mode = 384, hdr_Size = sz\<rparr>"
      obtain fs3 tw1 wh where wh: "tw_WriteHeader fs2 tw ?h = (fs3, tw1, wh)"
        by (cases "tw_WriteHeader fs2 tw ?h")
      show thesis
      proof (cases wh)
        case (Some err)
        with run st sz rd bs wh show thesis
          by (intro header_err [of fs1 sz fs2 bs fs3 tw1 err]) simp_all
      next
        case None
        note whn = None
        obtain fs4 tw2 wr where wr: "tw_Write fs3 tw1 bs = (fs4, tw2, wr)"
          by (cases "tw_Write fs3 tw1 bs")
        show thesis
        proof (cases wr)
          case (Some err)
          with run st sz rd bs wh whn wr show thesis
            by (intro body_err [of fs1 sz fs2 bs fs3 tw1 fs4 tw2 err]) simp_all
        next
          case None
          with run st sz rd bs wh whn wr show thesis
            by (intro added [of fs1 sz fs2 bs fs3 tw1 fs4 tw2]) simp_all
        qed
      qed
    qed
  qed
qed

lemma os_Stat_Inr:
  "os_Stat fs p = (fs1, Inr sz) \<Longrightarrow>
   \<exists>fl. files fs p = Some fl \<and> sz = int (length (content fl)) \<and> files fs1 = files fs"
  by (auto simp: os_Stat_def logged_def split: option.splits)

lemma os_Stat_NotExist:
  "os_Stat fs p = (fs1, Inl (PathError q ErrNotExist)) \<Longrightarrow> files fs p = None \<and> files fs1 = files fs"
  by (auto simp: os_Stat_def logged_def split: option.splits)

lemma ioutil_ReadFile_Inr:
  "ioutil_ReadFile fs p = (fs1, Inr bs) \<Longrightarrow>
   \<exists>fl. files fs p = Some fl \<and> bs = content fl \<and> files fs1 = files fs"
  by (auto simp: ioutil_ReadFile_def logged_def split: option.splits)

lemma tw_WriteHeader_None:
  "tw_WriteHeader fs tw hdr = (fs1, tw1, None) \<Longrightarrow>
   tw1 = tw\<lparr>tw_entries := tw_entries tw @ [(hdr, [])]\<rparr> \<and> files fs1 = files fs"
  by (auto simp: tw_WriteHeader_def logged_def split: option.splits)

lemma tw_Write_None:
  "tw_Write fs tw bs = (fs1, tw1, None) \<Longrightarrow> tw_entries tw = es @ [(hdr, b)] \<Longrightarrow>
   tw1 = tw\<lparr>tw_entries := es @ [(hdr, b @ bs)]\<rparr> \<and> files fs1 = files fs"
  by (auto simp: tw_Write_def logged_def split: option.splits)

lemma createArchive_loop_entries:
  "createArchive_loop fs tw ps = (fs', tw', None) \<Longrightarrow>
   \<exists>new. tw_entries tw' = tw_entries tw @ new \<and> map (hdr_Name \<circ> fst) new = ps
     \<and> (\<forall>e\<in>set new. hdr_Size (fst e) = int (length (snd e)) \<and> hdr_Mode (fst e) = 384
           \<and> map_option content (files fs (hdr_Name (fst e))) = Some (snd e))
     \<and> files fs' = files fs"
proof (induction ps arbitrary: fs tw)
  case Nil
  then show ?case by simp
next
  case (Cons p ps)
  from Cons.prems show ?case
  proof (cases rule: createArchive_loop_cases)
    case (added fs1 sz fs2 bs fs3 tw1 fs4 tw2)
    let ?h = "\<lparr>hdr_Name = p, hdr_Mode = 384, hdr_Size = sz\<rparr>"
    from os_Stat_Inr [OF added(1)] obtain fl where
      fl: "files fs p = Some fl" "sz = int (length (content fl))" "files fs1 = files fs" by blast
    from ioutil_ReadFile_Inr [OF added(2)] fl have bs: "bs = content fl" "files fs2 = files fs"
      by auto
    from tw_WriteHeader_None [OF added(3)]
    have t1: "tw1 = tw\<lparr>tw_entries := tw_entries tw @ [(?h, [])]\<rparr>" "files fs3 = files fs2"
      by auto
    have e1: "tw_entries tw1 = tw_entries tw @ [(?h, [])]" using t1(1) by simp
    from tw_Write_None [OF added(4) e1]
    have t2: "tw2 = tw1\<lparr>tw_entries := tw_entries tw @ [(?h, [] @ bs)]\<rparr>" "files fs4 = files fs3"
      by auto
    have e2: "tw_entries tw2 = tw_entries tw @ [(?h, bs)]" using t2(1) by simp
    from Cons.IH [OF added(5)] obtain new where
      n: "tw_entries tw' = tw_entries tw2 @ new" "map (hdr_Name \<circ> fst) new = ps"
         "\<forall>e\<in>set new. hdr_Size (fst e) = int (length (snd e)) \<and> hdr_Mode (fst e) = 384
           \<and> map_option content (files fs4 (hdr_Name (fst e))) = Some (snd e)"
         "files fs' = files fs4" by blast
    have f4: "files fs4 = files fs" using t2(2) t1(2) bs(2) by simp
    let ?new = "(?h, bs) # new"
    have A: "tw_entries tw' = tw_entries tw @ ?new" using n(1) e2 by simp
    have B: "map (hdr_Name \<circ> fst) ?new = p # ps" using n(2) by simp
    have C: "\<forall>e\<in>set ?new. hdr_Size (fst e) = int (length (snd e)) \<and> hdr_Mode (fst e) = 384
           \<and> map_option content (files fs (hdr_Name (fst e))) = Some (snd e)"
    proof
      fix e assume "e \<in> set ?new"
      then consider "e = (?h, bs)" | "e \<in> set new" by auto
      then show "hdr_Size (fst e) = int (length (snd e)) \<and> hdr_Mode (fst e) = 384
           \<and> map_option content (files fs (hdr_Name (fst e))) = Some (snd e)"
      proof cases
        case 1
        then show ?thesis using fl bs(1) by simp
      next
        case 2
        then show ?thesis using n(3) f4 by simp
      qed
    qed
    have D: "files fs' = files fs" using n(4) f4 by simp
    show ?thesis by (rule exI [of _ ?new]) (intro conjI A B C D)
  qed simp_all
qed

lemma shuffle_loop_Inr:
  "shuffle_loop intn i xs r = Inr (ys, r') \<Longrightarrow> mset ys = mset xs \<and> length ys = length xs"
proof (induction intn i xs r rule: shuffle_loop.induct)
  case (1 intn i xs r)
  show ?case
  proof (cases "i < length xs")
    case False
    then show ?thesis using "1.prems" by (subst (asm) shuffle_loop.simps) simp
  next
    case True
    obtain j r1 where jr: "intn (int i + 1) r = (j, r1)" by (cases "intn (int i + 1) r")
    have inr: "0 \<le> j \<and> j < int (length xs)"
      using "1.prems" True jr by (subst (asm) shuffle_loop.simps) (simp split: if_splits)
    have rec: "shuffle_loop intn (Suc i) (swap xs i (nat j)) r1 = Inr (ys, r')"
      using "1.prems" True jr inr by (subst (asm) shuffle_loop.simps) simp
    have "mset ys = mset (swap xs i (nat j)) \<and> length ys = length (swap xs i (nat j))"
      by (rule "1.IH" [OF True jr [symmetric] inr rec])
    moreover have "nat j < length xs" using inr by (simp add: nat_less_iff)
    ultimately show ?thesis using True by (simp add: mset_swap_list)
  qed
qed

lemma randBytes_fields:
  "randBytes n f = Some (Inr (bs, f')) \<Longrightarrow>
   imageDir f' = imageDir f \<and> allGeneratedFiles f' = allGeneratedFiles f"
  by (cases "randBytes_from n (src f)") (auto simp: randBytes_def map_sum_def split: sum.splits prod.splits)

lemma pool_loop_paths:
  "pool_loop L sz cnt i fs f = Some (fs', f', None) \<Longrightarrow> i \<le> cnt \<Longrightarrow>
   allGeneratedFiles f' = allGeneratedFiles f @ map (poolPath L (imageDir f) sz) [i..<cnt]
   \<and> imageDir f' = imageDir f"
proof (induction "cnt - i" arbitrary: i fs f)
  case 0
  then show ?case by (simp add: pool_loop_done)
next
  case (Suc d)
  then have lt: "i < cnt" by simp
  have d: "d = cnt - Suc i" using Suc.hyps(2) by simp
  let ?p = "poolPath L (imageDir f) sz i"
  let ?f1 = "f\<lparr>allGeneratedFiles := allGeneratedFiles f @ [?p]\<rparr>"
  from Suc.prems(1) lt show ?case
  proof (cases rule: pool_loop_cases)
    case (exists fs1 info)
    have "allGeneratedFiles f' = allGeneratedFiles ?f1 @ map (poolPath L (imageDir ?f1) sz) [Suc i..<cnt]
       \<and> imageDir f' = imageDir ?f1"
      by (rule Suc.hyps(1) [OF d exists(2)]) (use lt in simp)
    then show ?thesis using lt by (simp add: upt_conv_Cons)
  next
    case (written fs1 bs f2 fs2)
    from randBytes_fields [OF written(2)] have f2: "imageDir f2 = imageDir f"
      "allGeneratedFiles f2 = allGeneratedFiles f @ [?p]" by simp_all
    have "allGeneratedFiles f' = allGeneratedFiles f2 @ map (poolPath L (imageDir f2) sz) [Suc i..<cnt]
       \<and> imageDir f' = imageDir f2"
      by (rule Suc.hyps(1) [OF d written(4)]) (use lt in simp)
    then show ?thesis using lt f2 by (simp add: upt_conv_Cons)
  qed simp_all
qed

section \<open>The archive\<close>

lemma tw_Close_files: "files (fst (tw_Close fs tw)) = files fs"
  by (auto simp: tw_Close_def logged_def split: option.splits)

lemma os_Open_files: "os_Open fs p = (fs1, r) \<Longrightarrow> files fs1 = files fs"
  by (auto simp: os_Open_def logged_def split: option.splits)

lemma createArchive_success:
  assumes "createArchive fs name ps = (fs', ar, None)"
  shows "\<exists>fs1 fs2 tw. os_Create fs name = (fs1, None)
     \<and> createArchive_loop fs1 (tar_NewWriter name) ps = (fs2, tw, None)
     \<and> ar = tw_entries tw \<and> files fs' = files fs2"
proof -
  obtain fs1 c where c: "os_Create fs name = (fs1, c)" by (cases "os_Create fs name")
  obtain fs2 tw2 r where l: "createArchive_loop fs1 (tar_NewWriter name) ps = (fs2, tw2, r)"
    by (cases "createArchive_loop fs1 (tar_NewWriter name) ps")
  show ?thesis
  proof (cases c)
    case None
    with assms c l have "r = None" "ar = tw_entries tw2" "fs' = fst (tw_Close fs2 tw2)"
      by (simp_all add: createArchive_def)
    with c None l show ?thesis by (simp add: tw_Close_files)
  next
    case (Some e)
    with assms c show ?thesis by (simp add: createArchive_def)
  qed
qed

lemma generateDockerfile_Inr:
  "generateDockerfile fs ps = (fs', Inr d) \<Longrightarrow> d = dockerfileName"
  by (cases "ioutil_WriteFile fs dockerfileName (dockerfileText ps)")
     (auto simp: generateDockerfile_def split: option.splits)

lemma GenerateImage_success:
  assumes run: "GenerateImage L D fs f sz cnt tags = Some (fs', f', ar, None)"
  shows "\<exists>fs1 f1 fs2 fs3.
     generateRandomFilePool L fs f sz cnt = Some (fs1, f1, None)
     \<and> shuffleGeneratedFilePaths L f1 = Inr f'
     \<and> generateDockerfile fs1 (allGeneratedFiles f') = (fs2, Inr dockerfileName)
     \<and> createArchive fs2 (path_Join L (env_PWD L) ''context.tar'')
          (allGeneratedFiles f' @ [dockerfileName]) = (fs3, ar, None)
     \<and> files fs' = files fs3"
proof -
  from run obtain pr where pr: "generateRandomFilePool L fs f sz cnt = Some pr"
    by (cases "generateRandomFilePool L fs f sz cnt") (simp_all add: GenerateImage_def)
  obtain fs1 f1 e1 where p1: "pr = (fs1, f1, e1)" by (cases pr)
  have e1: "e1 = None" using run pr p1 by (cases e1) (simp_all add: GenerateImage_def)
  obtain f2 where sh: "shuffleGeneratedFilePaths L f1 = Inr f2"
    using run pr p1 e1 by (cases "shuffleGeneratedFilePaths L f1") (simp_all add: GenerateImage_def)
  obtain fs2 dr where df: "generateDockerfile fs1 (allGeneratedFiles f2) = (fs2, dr)"
    by (cases "generateDockerfile fs1 (allGeneratedFiles f2)")
  obtain d where d: "dr = Inr d"
    using run pr p1 e1 sh df by (cases dr) (simp_all add: GenerateImage_def)
  have dn: "d = dockerfileName" using df d generateDockerfile_Inr by simp
  let ?tar = "path_Join L (env_PWD L) ''context.tar''"
  obtain fs3 ar3 e3 where ca: "createArchive fs2 ?tar (allGeneratedFiles f2 @ [d]) = (fs3, ar3, e3)"
    by (cases "createArchive fs2 ?tar (allGeneratedFiles f2 @ [d])")
  have e3: "e3 = None"
    using run pr p1 e1 sh df d ca by (cases e3) (simp_all add: GenerateImage_def Let_def)
  have rest: "(case docker_NewEnvClient D of
                 Some err \<Rightarrow>
                   Some (fs3, f2, ar3,
                     Some (Errorf ''failed to initialized docker client: %w'' [Err err]))
               | None \<Rightarrow>
                   (case os_Open fs3 ?tar of
                      (fs4, Some err) \<Rightarrow>
                        Some (fs4, f2, ar3,
                          Some (Errorf ''failed to open tarball %s: %w'' [Str ?tar, Err err]))
                    | (fs4, None) \<Rightarrow>
                        (case docker_ImageBuild D ar3 d tags of
                           Some err \<Rightarrow>
                             Some (fs4, f2, ar3, Some (Errorf ''failed to build image: %w'' [Err err]))
                         | None \<Rightarrow> Some (fs4, f2, ar3, None)))) = Some (fs', f', ar, None)"
    using run pr p1 e1 sh df d ca e3 by (simp add: GenerateImage_def Let_def)
  have "f2 = f' \<and> ar3 = ar \<and> files fs' = files fs3"
  proof (cases "docker_NewEnvClient D")
    case (Some err)
    with rest show ?thesis by simp
  next
    case None
    obtain fs4 o4 where o: "os_Open fs3 ?tar = (fs4, o4)" by (cases "os_Open fs3 ?tar")
    note of4 = os_Open_files [OF o]
    show ?thesis
    proof (cases o4)
      case (Some err)
      with rest None o show ?thesis by simp
    next
      case n: None
      show ?thesis
        using rest None o n of4 by (cases "docker_ImageBuild D ar3 d tags") auto
    qed
  qed
  then show ?thesis using pr p1 e1 sh df d dn ca e3 by simp
qed

lemma generateRandomFilePool_success:
  assumes "generateRandomFilePool L fs f sz cnt = Some (fs', f', None)"
  shows "\<exists>fs1. os_MkdirAll fs (imageDir f) = (fs1, None)
     \<and> pool_loop L sz (unat cnt) 0 fs1 f = Some (fs', f', None)"
proof -
  obtain fs1 m where m: "os_MkdirAll fs (imageDir f) = (fs1, m)" by (cases "os_MkdirAll fs (imageDir f)")
  show ?thesis using assms m by (cases m) (simp_all add: generateRandomFilePool_def)
qed

lemma shuffleGeneratedFilePaths_Inr:
  assumes "shuffleGeneratedFilePaths L f = Inr f'"
  shows "mset (allGeneratedFiles f') = mset (allGeneratedFiles f)
     \<and> length (allGeneratedFiles f') = length (allGeneratedFiles f) \<and> imageDir f' = imageDir f"
proof -
  obtain ys r where s: "shuffle_loop (rand_Intn L) 0 (allGeneratedFiles f) (src f) = Inr (ys, r)"
    using assms
    by (cases "shuffle_loop (rand_Intn L) 0 (allGeneratedFiles f) (src f)")
       (auto simp: shuffleGeneratedFilePaths_def)
  then have "f' = f\<lparr>src := r, allGeneratedFiles := ys\<rparr>"
    using assms by (simp add: shuffleGeneratedFilePaths_def)
  then show ?thesis using shuffle_loop_Inr [OF s] by simp
qed

text \<open>
  C8, as amended. A run of \<open>GenerateImage\<close> with layer count \<open>N\<close> that returns no
  error, on a factory whose file list holds \<open>M\<close> paths when the run starts, leaves an
  archive of exactly \<open>M + N + 1\<close> entries, which is \<open>N + 1\<close> for a factory that has
  not run before. The names of the entries are the shuffled file list, in that order,
  followed by the manifest as the last entry; the shuffled list is a permutation of the
  \<open>M\<close> earlier paths and the \<open>N\<close> pool paths; and every entry's body is the content of
  the file of that name on the disk the run leaves, its recorded size being the length of
  that body.
\<close>

theorem archive_entries:
  assumes run: "GenerateImage L D fs f layerSizeKB layerCount tags = Some (fs', f', ar, None)"
  shows "length ar = length (allGeneratedFiles f) + unat layerCount + 1
     \<and> (allGeneratedFiles f = [] \<longrightarrow> length ar = unat layerCount + 1)
     \<and> map (hdr_Name \<circ> fst) ar = allGeneratedFiles f' @ [dockerfileName]
     \<and> mset (allGeneratedFiles f')
         = mset (allGeneratedFiles f
                  @ map (poolPath L (imageDir f) layerSizeKB) [0..<unat layerCount])
     \<and> (\<forall>e\<in>set ar. hdr_Size (fst e) = int (length (snd e))
           \<and> map_option content (files fs' (hdr_Name (fst e))) = Some (snd e))"
proof -
  from GenerateImage_success [OF run] obtain fs1 f1 fs2 fs3 where
    g: "generateRandomFilePool L fs f layerSizeKB layerCount = Some (fs1, f1, None)"
       "shuffleGeneratedFilePaths L f1 = Inr f'"
       "createArchive fs2 (path_Join L (env_PWD L) ''context.tar'')
          (allGeneratedFiles f' @ [dockerfileName]) = (fs3, ar, None)"
       "files fs' = files fs3"
    by blast
  from generateRandomFilePool_success [OF g(1)] obtain fs0 where
    "pool_loop L layerSizeKB (unat layerCount) 0 fs0 f = Some (fs1, f1, None)" by blast
  from pool_loop_paths [OF this]
  have p: "allGeneratedFiles f1
      = allGeneratedFiles f @ map (poolPath L (imageDir f) layerSizeKB) [0..<unat layerCount]"
    by simp
  note s = shuffleGeneratedFilePaths_Inr [OF g(2)]
  from createArchive_success [OF g(3)] obtain fs4 fs5 tw where
    l: "createArchive_loop fs4 (tar_NewWriter (path_Join L (env_PWD L) ''context.tar''))
          (allGeneratedFiles f' @ [dockerfileName]) = (fs5, tw, None)"
       "ar = tw_entries tw" "files fs3 = files fs5" by blast
  from createArchive_loop_entries [OF l(1)] obtain new where
    n: "tw_entries tw = tw_entries (tar_NewWriter (path_Join L (env_PWD L) ''context.tar'')) @ new"
       "map (hdr_Name \<circ> fst) new = allGeneratedFiles f' @ [dockerfileName]"
       "\<forall>e\<in>set new. hdr_Size (fst e) = int (length (snd e)) \<and> hdr_Mode (fst e) = 384
           \<and> map_option content (files fs4 (hdr_Name (fst e))) = Some (snd e)"
       "files fs5 = files fs4"
    by blast
  have ar: "ar = new" using n(1) l(2) by (simp add: tar_NewWriter_def)
  have ff: "files fs' = files fs4" using g(4) l(3) n(4) by simp
  have "length (map (hdr_Name \<circ> fst) ar) = length (allGeneratedFiles f' @ [dockerfileName])"
    using n(2) ar by simp
  then have A: "length ar = length (allGeneratedFiles f) + unat layerCount + 1" using s p by simp
  then have A': "allGeneratedFiles f = [] \<longrightarrow> length ar = unat layerCount + 1" by simp
  have B: "map (hdr_Name \<circ> fst) ar = allGeneratedFiles f' @ [dockerfileName]"
    using n(2) ar by simp
  have C: "mset (allGeneratedFiles f')
         = mset (allGeneratedFiles f
                  @ map (poolPath L (imageDir f) layerSizeKB) [0..<unat layerCount])"
    using s p by simp
  have D: "\<forall>e\<in>set ar. hdr_Size (fst e) = int (length (snd e))
           \<and> map_option content (files fs' (hdr_Name (fst e))) = Some (snd e)"
    using n(3) ar ff by simp
  show ?thesis by (intro conjI A A' B C D)
qed

lemma two_runs_of_one_factory:
  "(case GenerateImage toy_lib toy_docker empty_fs (NewRandomImageFactory toy_lib 7) 0 2 [] of
      None \<Rightarrow> None
    | Some (fs1, f1, ar1, e1) \<Rightarrow>
        (case GenerateImage toy_lib toy_docker fs1 f1 0 2 [] of
           None \<Rightarrow> None
         | Some (fs2, f2, ar2, e2) \<Rightarrow> Some (e1, length ar1, e2, length ar2)))
   = Some (None, 3, None, 5)"
  by code_simp

text \<open>
  C8 as stated fails: a factory that has run once with layer count 2 (three entries) and
  runs a second time with layer count 2 returns no error and leaves an archive of five
  entries, not three.
\<close>

theorem second_run_archives_five_entries:
  "\<exists>fs1 f1 ar1 fs2 f2 ar2.
     GenerateImage toy_lib toy_docker empty_fs (NewRandomImageFactory toy_lib 7) 0 2 []
       = Some (fs1, f1, ar1, None)
     \<and> GenerateImage toy_lib toy_docker fs1 f1 0 2 [] = Some (fs2, f2, ar2, None)
     \<and> length ar1 = 3 \<and> length ar2 = 5 \<and> unat (2 :: uint) + 1 = 3"
proof -
  let ?g1 = "GenerateImage toy_lib toy_docker empty_fs (NewRandomImageFactory toy_lib 7) 0 2 []"
  note t = two_runs_of_one_factory
  from t obtain fs1 f1 ar1 e1 where g1: "?g1 = Some (fs1, f1, ar1, e1)"
    by (cases ?g1) auto
  from t g1 obtain fs2 f2 ar2 e2 where
    g2: "GenerateImage toy_lib toy_docker fs1 f1 0 2 [] = Some (fs2, f2, ar2, e2)"
    by (cases "GenerateImage toy_lib toy_docker fs1 f1 0 2 []") auto
  from t g1 g2 have "e1 = None" "length ar1 = 3" "e2 = None" "length ar2 = 5" by simp_all
  with g1 g2 show ?thesis by auto
qed

section \<open>Idempotence of pool generation\<close>

lemma os_Stat_effect:
  "os_Stat fs p = (fs1, r) \<Longrightarrow> files fs1 = files fs \<and> writes fs1 = writes fs"
  by (auto simp: os_Stat_def logged_def writes_def split: option.splits)

lemma os_MkdirAll_effect:
  "os_MkdirAll fs p = (fs1, r) \<Longrightarrow> files fs1 = files fs \<and> writes fs1 = writes fs"
  by (auto simp: os_MkdirAll_def logged_def writes_def split: option.splits)

lemma ioutil_WriteFile_Some:
  "ioutil_WriteFile fs p bs = (fs1, Some e) \<Longrightarrow>
   files fs1 = files fs
   \<and> (\<exists>c. e = PathError p c \<and> writes fs1 = writes fs @ [(OpWriteFile, p, Some c)])"
  by (auto simp: ioutil_WriteFile_def logged_def writes_def split: option.splits)

lemma ioutil_WriteFile_None:
  "ioutil_WriteFile fs p bs = (fs1, None) \<Longrightarrow>
   files fs1 = (files fs)(p \<mapsto> \<lparr>content = bs, modTime = length (oplog fs)\<rparr>)
   \<and> writes fs1 = writes fs @ [(OpWriteFile, p, None)]"
  by (auto simp: ioutil_WriteFile_def logged_def writes_def split: option.splits)

lemma os_Stat_existing:
  "files fs p = Some fl \<Longrightarrow>
   (\<exists>fs1 k. os_Stat fs p = (fs1, Inl (PathError p (Errno k)))) \<or> (\<exists>fs1 sz. os_Stat fs p = (fs1, Inr sz))"
  by (auto simp: os_Stat_def split: option.splits)

lemma pool_loop_preserves:
  "pool_loop L sz cnt i fs f = Some (fs', f', e) \<Longrightarrow> files fs p = Some x \<Longrightarrow>
   files fs' p = Some x \<and> writes_to p fs' = writes_to p fs"
proof (induction "cnt - i" arbitrary: i fs f)
  case 0
  then show ?case by (simp add: pool_loop_done)
next
  case (Suc d)
  then have lt: "i < cnt" by simp
  have d: "d = cnt - Suc i" using Suc.hyps(2) by simp
  let ?p = "poolPath L (imageDir f) sz i"
  from Suc.prems(1) lt show ?case
  proof (cases rule: pool_loop_cases)
    case (exists fs1 info)
    from os_Stat_effect [OF exists(1)] have "files fs1 p = Some x" "writes_to p fs1 = writes_to p fs"
      using Suc.prems(2) by (simp_all add: writes_to_def)
    with Suc.hyps(1) [OF d exists(2)] show ?thesis by simp
  next
    case (stat_err fs1 err)
    from os_Stat_effect [OF stat_err(1)] show ?thesis
      using stat_err(3) Suc.prems(2) by (simp add: writes_to_def)
  next
    case (panic fs1 e')
    from os_Stat_effect [OF panic(1)] show ?thesis
      using panic(3) Suc.prems(2) by (simp add: writes_to_def)
  next
    case (write_err fs1 bs f2 fs2 err)
    from os_Stat_NotExist [OF write_err(1)] Suc.prems(2) have ne: "?p \<noteq> p" by auto
    from os_Stat_effect [OF write_err(1)] ioutil_WriteFile_Some [OF write_err(3)] show ?thesis
      using write_err(4) Suc.prems(2) ne by (auto simp: writes_to_def)
  next
    case (written fs1 bs f2 fs2)
    from os_Stat_NotExist [OF written(1)] Suc.prems(2) have ne: "?p \<noteq> p" by auto
    from os_Stat_effect [OF written(1)] ioutil_WriteFile_None [OF written(3)]
    have "files fs2 p = Some x" "writes_to p fs2 = writes_to p fs"
      using Suc.prems(2) ne by (simp_all add: writes_to_def)
    with Suc.hyps(1) [OF d written(4)] show ?thesis by simp
  qed
qed

lemma pool_loop_creates:
  "pool_loop L sz cnt i fs f = Some (fs', f', None) \<Longrightarrow> i \<le> j \<Longrightarrow> j < cnt \<Longrightarrow>
   poolPath L (imageDir f) sz j \<in> dom (files fs')"
proof (induction "cnt - i" arbitrary: i fs f)
  case 0
  then show ?case by simp
next
  case (Suc d)
  then have lt: "i < cnt" by simp
  have d: "d = cnt - Suc i" using Suc.hyps(2) by simp
  let ?p = "poolPath L (imageDir f) sz i"
  let ?f1 = "f\<lparr>allGeneratedFiles := allGeneratedFiles f @ [?p]\<rparr>"
  from Suc.prems(1) lt show ?case
  proof (cases rule: pool_loop_cases)
    case (exists fs1 info)
    show ?thesis
    proof (cases "j = i")
      case True
      from os_Stat_Inr [OF exists(1)] obtain fl where "files fs1 ?p = Some fl" by auto
      from pool_loop_preserves [OF exists(2) this] show ?thesis using True by auto
    next
      case False
      then have "Suc i \<le> j" using Suc.prems(2) by simp
      from Suc.hyps(1) [OF d exists(2) this Suc.prems(3)] show ?thesis by simp
    qed
  next
    case (written fs1 bs f2 fs2)
    from randBytes_fields [OF written(2)] have f2: "imageDir f2 = imageDir f" by simp
    show ?thesis
    proof (cases "j = i")
      case True
      from ioutil_WriteFile_None [OF written(3)] obtain fl where "files fs2 ?p = Some fl" by simp
      from pool_loop_preserves [OF written(4) this] show ?thesis using True by auto
    next
      case False
      then have "Suc i \<le> j" using Suc.prems(2) by simp
      from Suc.hyps(1) [OF d written(4) this Suc.prems(3)] show ?thesis using f2 by simp
    qed
  qed simp_all
qed

lemma pool_loop_noop:
  "(\<forall>j. i \<le> j \<and> j < cnt \<longrightarrow> poolPath L (imageDir f) sz j \<in> dom (files fs)) \<Longrightarrow>
   \<exists>fs' f' e. pool_loop L sz cnt i fs f = Some (fs', f', e) \<and> files fs' = files fs
     \<and> writes fs' = writes fs \<and> src f' = src f"
proof (induction "cnt - i" arbitrary: i fs f)
  case 0
  then show ?case by (simp add: pool_loop_done)
next
  case (Suc d)
  then have lt: "i < cnt" by simp
  have d: "d = cnt - Suc i" using Suc.hyps(2) by simp
  let ?p = "poolPath L (imageDir f) sz i"
  let ?f1 = "f\<lparr>allGeneratedFiles := allGeneratedFiles f @ [?p]\<rparr>"
  from Suc.prems lt obtain fl where fl: "files fs ?p = Some fl" by auto
  from os_Stat_existing [OF fl] show ?case
  proof (elim disjE exE)
    fix fs1 k assume st: "os_Stat fs ?p = (fs1, Inl (PathError ?p (Errno k)))"
    have "pool_loop L sz cnt i fs f
          = Some (fs1, ?f1, Some (Errorf ''error checking if file exists: %w'' [Err (PathError ?p (Errno k))]))"
      using lt st by (subst pool_loop.simps) (simp add: Let_def)
    then show ?thesis using os_Stat_effect [OF st] by simp
  next
    fix fs1 info assume st: "os_Stat fs ?p = (fs1, Inr info)"
    have u: "pool_loop L sz cnt i fs f = pool_loop L sz cnt (Suc i) fs1 ?f1"
      using lt st by (subst pool_loop.simps) (simp add: Let_def)
    note eff = os_Stat_effect [OF st]
    have "\<exists>fs' f' e. pool_loop L sz cnt (Suc i) fs1 ?f1 = Some (fs', f', e) \<and> files fs' = files fs1
     \<and> writes fs' = writes fs1 \<and> src f' = src ?f1"
    proof (rule Suc.hyps(1) [OF d])
      show "\<forall>j. Suc i \<le> j \<and> j < cnt \<longrightarrow> poolPath L (imageDir ?f1) sz j \<in> dom (files fs1)"
        using Suc.prems eff by simp
    qed
    then show ?thesis using u eff by simp
  qed
qed

text \<open>
  C6. Pool generation never touches a file that is already there: whatever was on disk
  before a successful call keeps its content and modification time, and no write to its
  path is attempted. After a successful call, a second call with the same layer size and
  count, by any factory on the same directory, returns having attempted no write at all:
  the files (contents and modification times) and the list of write operations are those
  the first call left, and the second factory's random source has not advanced.
\<close>
theorem pool_generation_idempotent:
  assumes first: "generateRandomFilePool L fs f layerSizeKB layerCount = Some (fs1, f1, None)"
    and dir: "imageDir g = imageDir f"
  shows "(\<forall>p x. files fs p = Some x \<longrightarrow>
            files fs1 p = Some x \<and> writes_to p fs1 = writes_to p fs)
     \<and> (\<exists>fs2 g2 e. generateRandomFilePool L fs1 g layerSizeKB layerCount = Some (fs2, g2, e)
            \<and> files fs2 = files fs1 \<and> writes fs2 = writes fs1 \<and> src g2 = src g)"
proof
  from generateRandomFilePool_success [OF first] obtain fs0 where
    m: "os_MkdirAll fs (imageDir f) = (fs0, None)"
    and l: "pool_loop L layerSizeKB (unat layerCount) 0 fs0 f = Some (fs1, f1, None)" by blast
  note m0 = os_MkdirAll_effect [OF m]
  show "\<forall>p x. files fs p = Some x \<longrightarrow> files fs1 p = Some x \<and> writes_to p fs1 = writes_to p fs"
  proof (intro allI impI)
    fix p x assume "files fs p = Some x"
    then have "files fs0 p = Some x" using m0 by simp
    from pool_loop_preserves [OF l this] show "files fs1 p = Some x \<and> writes_to p fs1 = writes_to p fs"
      using m0 by (simp add: writes_to_def)
  qed
  have all: "\<forall>j. 0 \<le> j \<and> j < unat layerCount \<longrightarrow> poolPath L (imageDir f) layerSizeKB j \<in> dom (files fs1)"
    using pool_loop_creates [OF l] by simp
  obtain fs3 r where m2: "os_MkdirAll fs1 (imageDir g) = (fs3, r)"
    by (cases "os_MkdirAll fs1 (imageDir g)")
  note m3 = os_MkdirAll_effect [OF m2]
  show "\<exists>fs2 g2 e. generateRandomFilePool L fs1 g layerSizeKB layerCount = Some (fs2, g2, e)
            \<and> files fs2 = files fs1 \<and> writes fs2 = writes fs1 \<and> src g2 = src g"
  proof (cases r)
    case (Some err)
    then show ?thesis using m2 m3 by (simp add: generateRandomFilePool_def)
  next
    case None
    have "\<exists>fs' f' e. pool_loop L layerSizeKB (unat layerCount) 0 fs3 g = Some (fs', f', e)
       \<and> files fs' = files fs3 \<and> writes fs' = writes fs3 \<and> src f' = src g"
      by (rule pool_loop_noop) (use all dir m3 in simp)
    then show ?thesis using None m2 m3 by (simp add: generateRandomFilePool_def)
  qed
qed

section \<open>The current variant advances its source from file to file\<close>

lemma rb_step_src:
  "pos (rb_src s) \<le> pos (rb_src (rb_shift (rb_pick (rb_refill s))))
   \<and> draws (rb_src (rb_shift (rb_pick (rb_refill s)))) = draws (rb_src s)"
  by (simp add: rb_shift_def rb_pick_def rb_refill_def Int63_def)

lemma randBytes_loop_src:
  assumes h: "randBytes_loop s = Some res"
  shows "pos (rb_src s) \<le> pos (snd res) \<and> draws (snd res) = draws (rb_src s)"
proof (rule randBytes_loop.raw_induct
    [where P = "\<lambda>s res. pos (rb_src s) \<le> pos (snd res) \<and> draws (snd res) = draws (rb_src s)",
     OF _ h])
  fix loop :: "rb_state \<Rightarrow> (string \<times> Rand) option" and s res
  assume ih: "\<And>s b. loop s = Some b \<Longrightarrow>
                 pos (rb_src s) \<le> pos (snd b) \<and> draws (snd b) = draws (rb_src s)"
    and eq: "(if 0 \<le> rb_i s then loop (rb_shift (rb_pick (rb_refill s)))
              else Some (rb_b s, rb_src s)) = Some res"
  show "pos (rb_src s) \<le> pos (snd res) \<and> draws (snd res) = draws (rb_src s)"
  proof (cases "0 \<le> rb_i s")
    case True
    with eq have "loop (rb_shift (rb_pick (rb_refill s))) = Some res" by simp
    from ih [OF this] rb_step_src [of s] show ?thesis by simp
  next
    case False
    with eq show ?thesis by auto
  qed
qed

lemma randBytes_from_advances:
  assumes "randBytes_from n r = Some (Inr (bs, r'))"
  shows "pos r < pos r' \<and> draws r' = draws r"
proof -
  have n: "\<not> n < 0" using assms by (auto simp: randBytes_from_def split: if_splits)
  let ?s = "\<lparr>rb_b = replicate (nat n) (CHR 0x00), rb_i = n - 1, rb_cache = draws r (pos r),
             rb_remain = letterIdxMax, rb_src = r\<lparr>pos := Suc (pos r)\<rparr>\<rparr>"
  have "randBytes_loop ?s = Some (bs, r')"
    using assms n by (auto simp: randBytes_from_def Int63_def)
  from randBytes_loop_src [OF this] show ?thesis by simp
qed

lemma randBytes_Inr:
  assumes "randBytes n f = Some (Inr (bs, f'))"
  shows "\<exists>r'. randBytes_from n (src f) = Some (Inr (bs, r')) \<and> f' = f\<lparr>src := r'\<rparr>"
proof -
  from assms obtain z where z: "randBytes_from n (src f) = Some z"
    by (cases "randBytes_from n (src f)") (simp_all add: randBytes_def)
  show ?thesis
  proof (cases z)
    case (Inl e)
    with assms z show ?thesis by (simp add: randBytes_def)
  next
    case (Inr pr)
    obtain bs0 r0 where "pr = (bs0, r0)" by (cases pr)
    with assms z Inr show ?thesis by (simp add: randBytes_def)
  qed
qed

text \<open>
  The current variant on a directory that holds none of the pool files, whose paths are
  pairwise distinct: file \<open>j\<close> holds the bytes that \<open>randBytes\<close> returns from the source
  as the calls for the files before it left it, and that source is at least \<open>j\<close> draws
  further than the one the loop started with.
\<close>

lemma pool_loop_stream:
  "pool_loop L sz cnt i fs f = Some (fs', f', None)
   \<Longrightarrow> \<forall>k. i \<le> k \<and> k < cnt \<longrightarrow> files fs (poolPath L (imageDir f) sz k) = None
   \<Longrightarrow> inj_on (poolPath L (imageDir f) sz) {i..<cnt}
   \<Longrightarrow> i \<le> j \<Longrightarrow> j < cnt
   \<Longrightarrow> \<exists>bs r'. randBytes_from (poolFileLen sz) ((next_src (poolFileLen sz) ^^ (j - i)) (src f))
               = Some (Inr (bs, r'))
        \<and> map_option content (files fs' (poolPath L (imageDir f) sz j)) = Some bs
        \<and> pos (src f) + (j - i) \<le> pos ((next_src (poolFileLen sz) ^^ (j - i)) (src f))"
proof (induction "cnt - i" arbitrary: i fs f)
  case 0
  then show ?case by simp
next
  case (Suc d)
  then have lt: "i < cnt" by simp
  have d: "d = cnt - Suc i" using Suc.hyps(2) by simp
  let ?path = "poolPath L (imageDir f) sz"
  let ?n = "poolFileLen sz"
  have none: "files fs (?path i) = None" using Suc.prems(2) lt by simp
  from Suc.prems(1) lt show ?case
  proof (cases rule: pool_loop_cases)
    case (exists fs1 info)
    from os_Stat_Inr [OF exists(1)] none show ?thesis by auto
  next
    case (written fs1 bs f2 fs2)
    let ?f1 = "f\<lparr>allGeneratedFiles := allGeneratedFiles f @ [?path i]\<rparr>"
    from randBytes_Inr [OF written(2)] obtain r' where
      rb: "randBytes_from ?n (src f) = Some (Inr (bs, r'))" and f2: "f2 = ?f1\<lparr>src := r'\<rparr>"
      by auto
    have nx: "next_src ?n (src f) = r'" using rb by (simp add: next_src_def)
    note adv = randBytes_from_advances [OF rb]
    from os_Stat_effect [OF written(1)] ioutil_WriteFile_None [OF written(3)]
    have fs2: "files fs2 = (files fs)(?path i \<mapsto> \<lparr>content = bs, modTime = length (oplog fs1)\<rparr>)"
      by simp
    show ?thesis
    proof (cases "j = i")
      case True
      have "files fs2 (?path i) = Some \<lparr>content = bs, modTime = length (oplog fs1)\<rparr>"
        using fs2 by simp
      from pool_loop_preserves [OF written(4) this]
      have "map_option content (files fs' (?path i)) = Some bs" by simp
      then show ?thesis using True rb by simp
    next
      case False
      then have j: "Suc i \<le> j" using Suc.prems(4) by simp
      have dir: "imageDir f2 = imageDir f" and src2: "src f2 = r'" using f2 by simp_all
      have inj: "inj_on (poolPath L (imageDir f2) sz) {Suc i..<cnt}"
        using Suc.prems(3) dir by (auto intro: inj_on_subset)
      have "\<forall>k. Suc i \<le> k \<and> k < cnt \<longrightarrow> files fs2 (poolPath L (imageDir f2) sz k) = None"
      proof (intro allI impI)
        fix k assume k: "Suc i \<le> k \<and> k < cnt"
        have "?path k \<noteq> ?path i"
        proof
          assume eq: "?path k = ?path i"
          have kin: "k \<in> {i..<cnt}" and iin: "i \<in> {i..<cnt}" using k lt by simp_all
          have "k = i" by (rule inj_onD [OF Suc.prems(3) eq kin iin])
          then show False using k by simp
        qed
        then show "files fs2 (poolPath L (imageDir f2) sz k) = None"
          using fs2 dir Suc.prems(2) k by simp
      qed
      from Suc.hyps(1) [OF d written(4) this inj j Suc.prems(5)] obtain bs' r'' where
        ih: "randBytes_from ?n ((next_src ?n ^^ (j - Suc i)) (src f2)) = Some (Inr (bs', r''))"
            "map_option content (files fs' (poolPath L (imageDir f2) sz j)) = Some bs'"
            "pos (src f2) + (j - Suc i) \<le> pos ((next_src ?n ^^ (j - Suc i)) (src f2))"
        by blast
      have sd: "j - i = Suc (j - Suc i)" using j by simp
      have fp: "(next_src ?n ^^ (j - i)) (src f) = (next_src ?n ^^ (j - Suc i)) (src f2)"
        unfolding sd using nx src2 by (simp add: funpow_swap1)
      have "pos (src f) + (j - i) \<le> pos (src f2) + (j - Suc i)"
      proof -
        have "pos (src f) < pos (src f2)" using adv src2 by simp
        then show ?thesis using sd by linarith
      qed
      also have "\<dots> \<le> pos ((next_src ?n ^^ (j - Suc i)) (src f2))" by (rule ih(3))
      finally have "pos (src f) + (j - i) \<le> pos ((next_src ?n ^^ (j - i)) (src f))"
        by (simp only: fp)
      then show ?thesis using ih(1,2) dir by (simp only: fp) simp
    qed
  qed simp_all
qed

section \<open>The older variant: every file gets the same bytes\<close>

lemma pool_loop_legacy_done:
  "\<not> i < unat (LayerCount f) \<Longrightarrow> pool_loop_legacy L i fs f = Some (fs, f, None)"
  by (subst pool_loop_legacy.simps) simp

lemma pool_loop_legacy_cases [consumes 2, case_names exists stat_err panic write_err written]:
  assumes run: "pool_loop_legacy L i fs f = Some res" and lt: "i < unat (LayerCount f)"
  obtains
    (exists) fs1 info where
      "os_Stat fs (poolPath L imageDir_legacy (LayerSizeKB f) i) = (fs1, Inr info)"
      "pool_loop_legacy L (Suc i) fs1
         (f\<lparr>allGeneratedFiles_legacy :=
              allGeneratedFiles_legacy f @ [poolPath L imageDir_legacy (LayerSizeKB f) i]\<rparr>) = Some res"
  | (stat_err) fs1 err where
      "os_Stat fs (poolPath L imageDir_legacy (LayerSizeKB f) i) = (fs1, Inl err)"
      "\<not> os_IsNotExist err"
      "res = (fs1, f\<lparr>allGeneratedFiles_legacy :=
                       allGeneratedFiles_legacy f @ [poolPath L imageDir_legacy (LayerSizeKB f) i]\<rparr>,
              Some (Errorf ''error checking if file exists: %w'' [Err err]))"
  | (panic) fs1 e where
      "os_Stat fs (poolPath L imageDir_legacy (LayerSizeKB f) i)
         = (fs1, Inl (PathError (poolPath L imageDir_legacy (LayerSizeKB f) i) ErrNotExist))"
      "randBytes_legacy L (poolFileLen (LayerSizeKB f)) f = Some (Inl e)"
      "res = (fs1, f\<lparr>allGeneratedFiles_legacy :=
                       allGeneratedFiles_legacy f @ [poolPath L imageDir_legacy (LayerSizeKB f) i]\<rparr>,
              Some e)"
  | (write_err) fs1 bs fs2 err where
      "os_Stat fs (poolPath L imageDir_legacy (LayerSizeKB f) i)
         = (fs1, Inl (PathError (poolPath L imageDir_legacy (LayerSizeKB f) i) ErrNotExist))"
      "randBytes_legacy L (poolFileLen (LayerSizeKB f)) f = Some (Inr bs)"
      "ioutil_WriteFile fs1 (poolPath L imageDir_legacy (LayerSizeKB f) i) bs = (fs2, Some err)"
      "res = (fs2, f\<lparr>allGeneratedFiles_legacy :=
                       allGeneratedFiles_legacy f @ [poolPath L imageDir_legacy (LayerSizeKB f) i]\<rparr>,
              Some (Errorf ''error writing random bytes to file: %w'' [Err err]))"
  | (written) fs1 bs fs2 where
      "os_Stat fs (poolPath L imageDir_legacy (LayerSizeKB f) i)
         = (fs1, Inl (PathError (poolPath L imageDir_legacy (LayerSizeKB f) i) ErrNotExist))"
      "randBytes_legacy L (poolFileLen (LayerSizeKB f)) f = Some (Inr bs)"
      "ioutil_WriteFile fs1 (poolPath L imageDir_legacy (LayerSizeKB f) i) bs = (fs2, None)"
      "pool_loop_legacy L (Suc i) fs2
         (f\<lparr>allGeneratedFiles_legacy :=
              allGeneratedFiles_legacy f @ [poolPath L imageDir_legacy (LayerSizeKB f) i]\<rparr>) = Some res"
proof -
  let ?p = "poolPath L imageDir_legacy (LayerSizeKB f) i"
  let ?f1 = "f\<lparr>allGeneratedFiles_legacy := allGeneratedFiles_legacy f @ [?p]\<rparr>"
  have rbeq: "randBytes_legacy L (poolFileLen (LayerSizeKB ?f1)) ?f1
              = randBytes_legacy L (poolFileLen (LayerSizeKB f)) f"
    by (simp add: randBytes_legacy_def)
  obtain fs1 st where st: "os_Stat fs ?p = (fs1, st)" by (cases "os_Stat fs ?p")
  have u: "(case st of
              Inr info \<Rightarrow> pool_loop_legacy L (Suc i) fs1 ?f1
            | Inl err \<Rightarrow>
                if \<not> os_IsNotExist err
                then Some (fs1, ?f1, Some (Errorf ''error checking if file exists: %w'' [Err err]))
                else (case randBytes_legacy L (poolFileLen (LayerSizeKB ?f1)) ?f1 of
                        None \<Rightarrow> None
                      | Some (Inl panic) \<Rightarrow> Some (fs1, ?f1, Some panic)
                      | Some (Inr bs) \<Rightarrow>
                          (case ioutil_WriteFile fs1 ?p bs of
                             (fs2, Some err2) \<Rightarrow>
                               Some (fs2, ?f1, Some (Errorf ''error writing random bytes to file: %w'' [Err err2]))
                           | (fs2, None) \<Rightarrow> pool_loop_legacy L (Suc i) fs2 ?f1))) = Some res"
    using run lt st by (subst (asm) pool_loop_legacy.simps) (simp add: Let_def)
  show thesis
  proof (cases st)
    case (Inr info)
    with u st show thesis by (intro exists [of fs1 info]) simp_all
  next
    case (Inl err)
    show thesis
    proof (cases "os_IsNotExist err")
      case False
      with u st Inl show thesis by (intro stat_err [of fs1 err]) simp_all
    next
      case True
      note ne = True
      have pe: "err = PathError ?p ErrNotExist"
        using st ne unfolding Inl by (rule os_Stat_IsNotExist)
      have st': "os_Stat fs ?p = (fs1, Inl (PathError ?p ErrNotExist))"
        using st Inl pe by simp
      have u2: "(case randBytes_legacy L (poolFileLen (LayerSizeKB f)) f of
                        None \<Rightarrow> None
                      | Some (Inl panic) \<Rightarrow> Some (fs1, ?f1, Some panic)
                      | Some (Inr bs) \<Rightarrow>
                          (case ioutil_WriteFile fs1 ?p bs of
                             (fs2, Some err2) \<Rightarrow>
                               Some (fs2, ?f1, Some (Errorf ''error writing random bytes to file: %w'' [Err err2]))
                           | (fs2, None) \<Rightarrow> pool_loop_legacy L (Suc i) fs2 ?f1)) = Some res"
        using u Inl ne by (simp only: rbeq sum.case if_False simp_thms)
      from u2 obtain rb where rb: "randBytes_legacy L (poolFileLen (LayerSizeKB f)) f = Some rb"
        by (cases "randBytes_legacy L (poolFileLen (LayerSizeKB f)) f") simp_all
      show thesis
      proof (cases rb)
        case (Inl e)
        with u2 st' \<open>st = Inl err\<close> ne rb show thesis by (intro panic [of fs1 e]) simp_all
      next
        case (Inr bs)
        obtain fs2 w where w: "ioutil_WriteFile fs1 ?p bs = (fs2, w)"
          by (cases "ioutil_WriteFile fs1 ?p bs")
        show thesis
        proof (cases w)
          case None
          with u2 st' \<open>st = Inl err\<close> ne rb Inr w show thesis
            by (intro written [of fs1 bs fs2]) simp_all
        next
          case (Some err2)
          with u2 st' \<open>st = Inl err\<close> ne rb Inr w show thesis
            by (intro write_err [of fs1 bs fs2 err2]) simp_all
        qed
      qed
    qed
  qed
qed

text \<open>
  What the older loop leaves on disk: every file is either the file that was there
  before, or holds the bytes that \<open>randBytes\<close> returns for the factory's seed.
\<close>

lemma pool_loop_legacy_contents:
  "pool_loop_legacy L i fs f = Some (fs', f', e) \<Longrightarrow>
   Seed f' = Seed f \<and>
   (\<forall>p fl. files fs' p = Some fl \<longrightarrow>
      files fs p = Some fl
      \<or> randBytes_legacy L (poolFileLen (LayerSizeKB f)) f = Some (Inr (content fl)))
   \<and> (\<forall>p. files fs p \<noteq> None \<longrightarrow> files fs' p \<noteq> None)
   \<and> (e = None \<longrightarrow> (\<forall>j. i \<le> j \<and> j < unat (LayerCount f) \<longrightarrow>
          files fs' (poolPath L imageDir_legacy (LayerSizeKB f) j) \<noteq> None))"
proof (induction "unat (LayerCount f) - i" arbitrary: i fs f)
  case 0
  then have "\<not> i < unat (LayerCount f)" by simp
  with "0.prems" have "fs' = fs \<and> f' = f \<and> e = None" by (auto simp: pool_loop_legacy_done)
  moreover have "\<forall>j. \<not> (i \<le> j \<and> j < unat (LayerCount f))" using "0.hyps" by auto
  ultimately show ?case by auto
next
  case (Suc d)
  then have lt: "i < unat (LayerCount f)" by simp
  let ?p = "poolPath L imageDir_legacy (LayerSizeKB f) i"
  let ?f1 = "f\<lparr>allGeneratedFiles_legacy := allGeneratedFiles_legacy f @ [?p]\<rparr>"
  let ?n = "poolFileLen (LayerSizeKB f)"
  have d: "d = unat (LayerCount ?f1) - Suc i" using Suc.hyps(2) by simp
  have rbeq: "randBytes_legacy L ?n ?f1 = randBytes_legacy L ?n f"
    by (simp add: randBytes_legacy_def)
  from Suc.prems lt show ?case
  proof (cases rule: pool_loop_legacy_cases)
    case (exists fs1 info)
    from os_Stat_Inr [OF exists(1)] obtain fl0 where
      s: "files fs ?p = Some fl0" "files fs1 = files fs" by blast
    from Suc.hyps(1) [OF d exists(2)] rbeq s(2)
    have ih: "Seed f' = Seed f"
      "\<forall>p fl. files fs' p = Some fl \<longrightarrow>
         files fs p = Some fl \<or> randBytes_legacy L ?n f = Some (Inr (content fl))"
      "\<forall>p. files fs p \<noteq> None \<longrightarrow> files fs' p \<noteq> None"
      "e = None \<longrightarrow> (\<forall>j. Suc i \<le> j \<and> j < unat (LayerCount f) \<longrightarrow>
          files fs' (poolPath L imageDir_legacy (LayerSizeKB f) j) \<noteq> None)"
      by simp_all
    have "e = None \<longrightarrow> (\<forall>j. i \<le> j \<and> j < unat (LayerCount f) \<longrightarrow>
          files fs' (poolPath L imageDir_legacy (LayerSizeKB f) j) \<noteq> None)"
    proof (intro impI allI)
      fix j assume e: "e = None" and j: "i \<le> j \<and> j < unat (LayerCount f)"
      show "files fs' (poolPath L imageDir_legacy (LayerSizeKB f) j) \<noteq> None"
      proof (cases "j = i")
        case True
        then show ?thesis using ih(3) s(1) by simp
      next
        case False
        then have "Suc i \<le> j" using j by simp
        then show ?thesis using ih(4) e j by simp
      qed
    qed
    with ih(1-3) show ?thesis by simp
  next
    case (stat_err fs1 err)
    from os_Stat_effect [OF stat_err(1)] stat_err(3) show ?thesis by simp
  next
    case (panic fs1 e')
    from os_Stat_effect [OF panic(1)] panic(3) show ?thesis by simp
  next
    case (write_err fs1 bs fs2 err)
    from os_Stat_effect [OF write_err(1)] ioutil_WriteFile_Some [OF write_err(3)] write_err(4)
    show ?thesis by simp
  next
    case (written fs1 bs fs2)
    from os_Stat_effect [OF written(1)] ioutil_WriteFile_None [OF written(3)]
    have f2: "files fs2 = (files fs)(?p \<mapsto> \<lparr>content = bs, modTime = length (oplog fs1)\<rparr>)"
      by simp
    from Suc.hyps(1) [OF d written(4)] rbeq
    have ih: "Seed f' = Seed f"
      "\<forall>p fl. files fs' p = Some fl \<longrightarrow>
         files fs2 p = Some fl \<or> randBytes_legacy L ?n f = Some (Inr (content fl))"
      "\<forall>p. files fs2 p \<noteq> None \<longrightarrow> files fs' p \<noteq> None"
      "e = None \<longrightarrow> (\<forall>j. Suc i \<le> j \<and> j < unat (LayerCount f) \<longrightarrow>
          files fs' (poolPath L imageDir_legacy (LayerSizeKB f) j) \<noteq> None)"
      by simp_all
    have A: "\<forall>p fl. files fs' p = Some fl \<longrightarrow>
         files fs p = Some fl \<or> randBytes_legacy L ?n f = Some (Inr (content fl))"
    proof (intro allI impI)
      fix p fl assume "files fs' p = Some fl"
      with ih(2) consider "files fs2 p = Some fl"
        | "randBytes_legacy L ?n f = Some (Inr (content fl))" by blast
      then show "files fs p = Some fl \<or> randBytes_legacy L ?n f = Some (Inr (content fl))"
      proof cases
        case 1
        show ?thesis
        proof (cases "p = ?p")
          case True
          with 1 f2 have "content fl = bs" by auto
          with written(2) show ?thesis by simp
        next
          case False
          with 1 f2 show ?thesis by simp
        qed
      next
        case 2
        then show ?thesis by simp
      qed
    qed
    have B: "\<forall>p. files fs p \<noteq> None \<longrightarrow> files fs' p \<noteq> None"
      using ih(3) f2 by simp
    have C: "e = None \<longrightarrow> (\<forall>j. i \<le> j \<and> j < unat (LayerCount f) \<longrightarrow>
          files fs' (poolPath L imageDir_legacy (LayerSizeKB f) j) \<noteq> None)"
    proof (intro impI allI)
      fix j assume e: "e = None" and j: "i \<le> j \<and> j < unat (LayerCount f)"
      show "files fs' (poolPath L imageDir_legacy (LayerSizeKB f) j) \<noteq> None"
      proof (cases "j = i")
        case True
        then show ?thesis using ih(3) f2 by simp
      next
        case False
        then have "Suc i \<le> j" using j by simp
        then show ?thesis using ih(4) e j by simp
      qed
    qed
    from ih(1) A B C show ?thesis by simp
  qed
qed

lemma os_Stat_no_fault:
  "fault fs OpStat p = None \<Longrightarrow>
   (\<exists>fs1. os_Stat fs p = (fs1, Inl (PathError p ErrNotExist)) \<and> faults fs1 = faults fs)
   \<or> (\<exists>fs1 sz. os_Stat fs p = (fs1, Inr sz) \<and> faults fs1 = faults fs)"
  by (auto simp: os_Stat_def logged_def split: option.splits)

lemma ioutil_WriteFile_no_fault:
  "fault fs OpWriteFile p = None \<Longrightarrow>
   \<exists>fs1. ioutil_WriteFile fs p bs = (fs1, None) \<and> faults fs1 = faults fs"
  by (simp add: ioutil_WriteFile_def logged_def)

lemma os_MkdirAll_no_fault:
  "fault fs OpMkdirAll p = None \<Longrightarrow>
   \<exists>fs1. os_MkdirAll fs p = (fs1, None) \<and> faults fs1 = faults fs \<and> files fs1 = files fs"
  by (simp add: os_MkdirAll_def logged_def)

lemma randBytes_legacy_returns:
  assumes "0 \<le> n" and "productive (rand_NewSource L (Seed f))"
  shows "\<exists>bs. randBytes_legacy L n f = Some (Inr bs) \<and> int (length bs) = n"
proof -
  have "productive (draws (rand_New (rand_NewSource L (Seed f))))"
    using assms(2) by (simp add: rand_New_def)
  from randBytes_from_returns [OF assms(1) this] show ?thesis
    by (auto simp: randBytes_legacy_def)
qed

lemma pool_loop_legacy_succeeds:
  "\<forall>t op p. faults fs t op p = None \<Longrightarrow> productive (rand_NewSource L (Seed f))
   \<Longrightarrow> 0 \<le> poolFileLen (LayerSizeKB f)
   \<Longrightarrow> \<exists>fs' f'. pool_loop_legacy L i fs f = Some (fs', f', None)"
proof (induction "unat (LayerCount f) - i" arbitrary: i fs f)
  case 0
  then show ?case by (simp add: pool_loop_legacy_done)
next
  case (Suc d)
  then have lt: "i < unat (LayerCount f)" by simp
  let ?p = "poolPath L imageDir_legacy (LayerSizeKB f) i"
  let ?f1 = "f\<lparr>allGeneratedFiles_legacy := allGeneratedFiles_legacy f @ [?p]\<rparr>"
  let ?n = "poolFileLen (LayerSizeKB f)"
  have d: "d = unat (LayerCount ?f1) - Suc i" using Suc.hyps(2) by simp
  have p1: "productive (rand_NewSource L (Seed ?f1))" using Suc.prems(2) by simp
  have n1: "0 \<le> poolFileLen (LayerSizeKB ?f1)" using Suc.prems(3) by simp
  have nf: "fault fs OpStat ?p = None" using Suc.prems(1) by (simp add: fault_def)
  from os_Stat_no_fault [OF nf] show ?case
  proof (elim disjE exE conjE)
    fix fs1 sz assume st: "os_Stat fs ?p = (fs1, Inr sz)" and ff: "faults fs1 = faults fs"
    have u: "pool_loop_legacy L i fs f = pool_loop_legacy L (Suc i) fs1 ?f1"
      using lt st by (subst pool_loop_legacy.simps) (simp add: Let_def)
    have "\<exists>fs' f'. pool_loop_legacy L (Suc i) fs1 ?f1 = Some (fs', f', None)"
      by (rule Suc.hyps(1) [OF d _ p1 n1]) (use ff Suc.prems(1) in simp)
    then show ?thesis using u by simp
  next
    fix fs1 assume st: "os_Stat fs ?p = (fs1, Inl (PathError ?p ErrNotExist))"
      and ff: "faults fs1 = faults fs"
    from randBytes_legacy_returns [OF n1 p1] obtain bs where
      rb: "randBytes_legacy L (poolFileLen (LayerSizeKB ?f1)) ?f1 = Some (Inr bs)" by blast
    have "fault fs1 OpWriteFile ?p = None" using ff Suc.prems(1) by (simp add: fault_def)
    from ioutil_WriteFile_no_fault [OF this] obtain fs2 where
      w: "ioutil_WriteFile fs1 ?p bs = (fs2, None)" and ff2: "faults fs2 = faults fs1" by blast
    have u: "pool_loop_legacy L i fs f = pool_loop_legacy L (Suc i) fs2 ?f1"
      using lt st rb w by (subst pool_loop_legacy.simps) (simp add: Let_def)
    have "\<exists>fs' f'. pool_loop_legacy L (Suc i) fs2 ?f1 = Some (fs', f', None)"
      by (rule Suc.hyps(1) [OF d _ p1 n1]) (use ff ff2 Suc.prems(1) in simp)
    then show ?thesis using u by simp
  qed
qed

lemma generateRandomFilePool_legacy_succeeds:
  assumes "\<forall>t op p. faults fs t op p = None" and "productive (rand_NewSource L (Seed f))"
    and "0 \<le> poolFileLen (LayerSizeKB f)"
  shows "\<exists>fs' f'. generateRandomFilePool_legacy L fs f = Some (fs', f', None)"
proof -
  have "fault fs OpMkdirAll imageDir_legacy = None" using assms(1) by (simp add: fault_def)
  from os_MkdirAll_no_fault [OF this] obtain fs1 where
    m: "os_MkdirAll fs imageDir_legacy = (fs1, None)" "faults fs1 = faults fs" by blast
  have "\<exists>fs' f'. pool_loop_legacy L 0 fs1 f = Some (fs', f', None)"
    by (rule pool_loop_legacy_succeeds) (use m(2) assms in simp_all)
  then show ?thesis using m(1) by (simp add: generateRandomFilePool_legacy_def)
qed

lemma generateRandomFilePool_legacy_contents:
  assumes run: "generateRandomFilePool_legacy L fs f = Some (fs', f', None)"
    and i: "i < unat (LayerCount f)"
    and ni: "files fs (poolPath L imageDir_legacy (LayerSizeKB f) i) = None"
  shows "Seed f' = Seed f \<and>
    (\<exists>fl. files fs' (poolPath L imageDir_legacy (LayerSizeKB f) i) = Some fl
       \<and> randBytes_legacy L (poolFileLen (LayerSizeKB f)) f = Some (Inr (content fl)))"
proof -
  obtain fs1 m where m: "os_MkdirAll fs imageDir_legacy = (fs1, m)"
    by (cases "os_MkdirAll fs imageDir_legacy")
  have l: "pool_loop_legacy L 0 fs1 f = Some (fs', f', None)"
    using run m by (cases m) (simp_all add: generateRandomFilePool_legacy_def)
  note c = pool_loop_legacy_contents [OF l]
  let ?p = "poolPath L imageDir_legacy (LayerSizeKB f) i"
  from c i obtain fl where fl: "files fs' ?p = Some fl" by auto
  have "files fs1 ?p = None" using os_MkdirAll_effect [OF m] ni by simp
  with c fl have "randBytes_legacy L (poolFileLen (LayerSizeKB f)) f = Some (Inr (content fl))"
    by (metis option.distinct(1))
  with c fl show ?thesis by simp
qed

text \<open>
  C10. In the older variant the bytes \<open>randBytes\<close> returns depend on the factory only
  through its \<open>Seed\<close>, which a run never changes: every call of one run with the same
  length returns the same bytes. So after a run of pool generation that returned no
  error, any two of its files that were not on disk before hold the same content, the
  bytes \<open>randBytes\<close> returns for the seed and the layer size.
\<close>
theorem legacy_files_identical:
  assumes run: "generateRandomFilePool_legacy L fs f = Some (fs', f', None)"
    and i: "i < unat (LayerCount f)" and j: "j < unat (LayerCount f)"
    and ni: "files fs (poolPath L imageDir_legacy (LayerSizeKB f) i) = None"
    and nj: "files fs (poolPath L imageDir_legacy (LayerSizeKB f) j) = None"
  shows "(\<forall>n. randBytes_legacy L n f' = randBytes_legacy L n f)
     \<and> (\<exists>bs. randBytes_legacy L (poolFileLen (LayerSizeKB f)) f = Some (Inr bs)
          \<and> map_option content (files fs' (poolPath L imageDir_legacy (LayerSizeKB f) i)) = Some bs
          \<and> map_option content (files fs' (poolPath L imageDir_legacy (LayerSizeKB f) j)) = Some bs)"
proof -
  from generateRandomFilePool_legacy_contents [OF run i ni] obtain fi where
    a: "Seed f' = Seed f" "files fs' (poolPath L imageDir_legacy (LayerSizeKB f) i) = Some fi"
       "randBytes_legacy L (poolFileLen (LayerSizeKB f)) f = Some (Inr (content fi))" by blast
  from generateRandomFilePool_legacy_contents [OF run j nj] obtain fj where
    b: "files fs' (poolPath L imageDir_legacy (LayerSizeKB f) j) = Some fj"
       "randBytes_legacy L (poolFileLen (LayerSizeKB f)) f = Some (Inr (content fj))" by blast
  have "content fj = content fi" using a(3) b(2) by simp
  with a b show ?thesis by (simp add: randBytes_legacy_def)
qed

lemma showNat_digit: "n < 10 \<Longrightarrow> showNat n = [digit_char n]"
  by (subst showNat.simps) simp

lemma productive_alt_lib: "productive (rand_NewSource alt_lib seed)"
  using productive_alt_source by (simp add: alt_lib_def)

lemma empty_fs_no_faults: "\<forall>t op p. faults empty_fs t op p = None"
  by (simp add: empty_fs_def)

lemma poolFileLen_1: "poolFileLen 1 = 1024"
  by (simp add: poolFileLen_def)

theorem legacy_files_identical_witness:
  "\<exists>fs' f'. generateRandomFilePool_legacy alt_lib empty_fs legacy_a = Some (fs', f', None)
     \<and> (0::nat) < unat (LayerCount legacy_a) \<and> (1::nat) < unat (LayerCount legacy_a)
     \<and> files empty_fs (poolPath alt_lib imageDir_legacy (LayerSizeKB legacy_a) 0) = None
     \<and> files empty_fs (poolPath alt_lib imageDir_legacy (LayerSizeKB legacy_a) 1) = None
     \<and> (\<exists>bs. randBytes_legacy alt_lib (poolFileLen (LayerSizeKB legacy_a)) legacy_a = Some (Inr bs)
          \<and> map_option content (files fs' (poolPath alt_lib imageDir_legacy (LayerSizeKB legacy_a) 0)) = Some bs
          \<and> map_option content (files fs' (poolPath alt_lib imageDir_legacy (LayerSizeKB legacy_a) 1)) = Some bs)"
proof -
  have "0 \<le> poolFileLen (LayerSizeKB legacy_a)" by (simp add: legacy_a_def poolFileLen_1)
  from generateRandomFilePool_legacy_succeeds [OF empty_fs_no_faults productive_alt_lib this]
  obtain fs' f' where run: "generateRandomFilePool_legacy alt_lib empty_fs legacy_a = Some (fs', f', None)"
    by blast
  have i: "(0::nat) < unat (LayerCount legacy_a)" and j: "(1::nat) < unat (LayerCount legacy_a)"
    by (simp_all add: legacy_a_def)
  have ni: "files empty_fs (poolPath alt_lib imageDir_legacy (LayerSizeKB legacy_a) 0) = None"
    and nj: "files empty_fs (poolPath alt_lib imageDir_legacy (LayerSizeKB legacy_a) 1) = None"
    by (simp_all add: empty_fs_def)
  from run i j ni nj legacy_files_identical [OF run i j ni nj] show ?thesis by blast
qed

text \<open>
  C3. The older variant, which the command \<open>build\<close> runs, on an empty directory with
  layer size 1 KB and layer count 2: the run succeeds and the second file holds the very
  1024 bytes of the first. The generator is rebuilt from the seed for every file, not
  advanced across the files.
\<close>
theorem legacy_pool_repeats_bytes:
  "\<exists>fs' f' bs. generateRandomFilePool_legacy alt_lib empty_fs legacy_a = Some (fs', f', None)
     \<and> length bs = 1024
     \<and> map_option content (files fs' ''./generated-files/random_1KB_0.txt'') = Some bs
     \<and> map_option content (files fs' ''./generated-files/random_1KB_1.txt'') = Some bs"
proof -
  have n: "0 \<le> poolFileLen (LayerSizeKB legacy_a)" by (simp add: legacy_a_def poolFileLen_1)
  from generateRandomFilePool_legacy_succeeds [OF empty_fs_no_faults productive_alt_lib n]
  obtain fs' f' where run: "generateRandomFilePool_legacy alt_lib empty_fs legacy_a = Some (fs', f', None)"
    by blast
  have p0: "poolPath alt_lib imageDir_legacy (LayerSizeKB legacy_a) 0 = ''./generated-files/random_1KB_0.txt''"
    and p1: "poolPath alt_lib imageDir_legacy (LayerSizeKB legacy_a) 1 = ''./generated-files/random_1KB_1.txt''"
    by (simp_all add: poolPath_def alt_lib_def toy_lib_def imageDir_legacy_def legacy_a_def
        showNat_digit digit_char_def)
  have i: "(0::nat) < unat (LayerCount legacy_a)" and j: "(1::nat) < unat (LayerCount legacy_a)"
    by (simp_all add: legacy_a_def)
  from randBytes_legacy_returns [OF n productive_alt_lib] obtain bs where
    bs: "randBytes_legacy alt_lib (poolFileLen (LayerSizeKB legacy_a)) legacy_a = Some (Inr bs)"
        "int (length bs) = poolFileLen (LayerSizeKB legacy_a)" by blast
  have len: "length bs = 1024" using bs(2) by (simp add: legacy_a_def poolFileLen_1)
  from generateRandomFilePool_legacy_contents [OF run i] bs(1)
  have c0: "map_option content (files fs' ''./generated-files/random_1KB_0.txt'') = Some bs"
    unfolding p0 by (auto simp: empty_fs_def)
  from generateRandomFilePool_legacy_contents [OF run j] bs(1)
  have c1: "map_option content (files fs' ''./generated-files/random_1KB_1.txt'') = Some bs"
    unfolding p1 by (auto simp: empty_fs_def)
  from run len c0 c1 show ?thesis by blast
qed

section \<open>What the generated bytes and the shuffled order depend on\<close>

lemma same_stream_sym: "same_stream r1 r2 \<Longrightarrow> same_stream r2 r1"
  by (simp add: same_stream_def)

lemma same_stream_next:
  assumes "same_stream r1 r2"
  shows "draws r1 (pos r1) = draws r2 (pos r2)
     \<and> same_stream (r1\<lparr>pos := Suc (pos r1)\<rparr>) (r2\<lparr>pos := Suc (pos r2)\<rparr>)"
proof
  from assms have "draws r1 (pos r1 + 0) = draws r2 (pos r2 + 0)"
    unfolding same_stream_def by blast
  then show "draws r1 (pos r1) = draws r2 (pos r2)" by simp
  show "same_stream (r1\<lparr>pos := Suc (pos r1)\<rparr>) (r2\<lparr>pos := Suc (pos r2)\<rparr>)"
    unfolding same_stream_def
  proof
    fix k
    from assms have "draws r1 (pos r1 + Suc k) = draws r2 (pos r2 + Suc k)"
      unfolding same_stream_def by blast
    then show "draws (r1\<lparr>pos := Suc (pos r1)\<rparr>) (pos (r1\<lparr>pos := Suc (pos r1)\<rparr>) + k)
        = draws (r2\<lparr>pos := Suc (pos r2)\<rparr>) (pos (r2\<lparr>pos := Suc (pos r2)\<rparr>) + k)"
      by simp
  qed
qed

text \<open>
  One iteration of the loop of \<open>randBytes\<close> keeps two states in step when they agree on
  the local variables and their sources have the same stream.
\<close>

lemma rb_step_sim:
  assumes "rb_b s1 = rb_b s2" and "rb_i s1 = rb_i s2" and "rb_cache s1 = rb_cache s2"
    and "rb_remain s1 = rb_remain s2" and "same_stream (rb_src s1) (rb_src s2)"
  shows "rb_b (rb_shift (rb_pick (rb_refill s1))) = rb_b (rb_shift (rb_pick (rb_refill s2)))
     \<and> rb_i (rb_shift (rb_pick (rb_refill s1))) = rb_i (rb_shift (rb_pick (rb_refill s2)))
     \<and> rb_cache (rb_shift (rb_pick (rb_refill s1))) = rb_cache (rb_shift (rb_pick (rb_refill s2)))
     \<and> rb_remain (rb_shift (rb_pick (rb_refill s1))) = rb_remain (rb_shift (rb_pick (rb_refill s2)))
     \<and> same_stream (rb_src (rb_shift (rb_pick (rb_refill s1))))
          (rb_src (rb_shift (rb_pick (rb_refill s2))))"
proof -
  note n = same_stream_next [OF assms(5)]
  have r: "rb_b (rb_refill s1) = rb_b (rb_refill s2)" "rb_i (rb_refill s1) = rb_i (rb_refill s2)"
    "rb_cache (rb_refill s1) = rb_cache (rb_refill s2)"
    "rb_remain (rb_refill s1) = rb_remain (rb_refill s2)"
    "same_stream (rb_src (rb_refill s1)) (rb_src (rb_refill s2))"
    using assms n by (simp_all add: rb_refill_def Int63_def)
  then show ?thesis by (simp add: rb_shift_def rb_pick_def)
qed

lemma randBytes_loop_sim:
  assumes h: "randBytes_loop s1 = Some res"
  shows "\<forall>s2::rb_state. rb_b s1 = rb_b s2 \<and> rb_i s1 = rb_i s2 \<and> rb_cache s1 = rb_cache s2
     \<and> rb_remain s1 = rb_remain s2 \<and> same_stream (rb_src s1) (rb_src s2)
     \<longrightarrow> (\<exists>r2. randBytes_loop s2 = Some (fst res, r2) \<and> same_stream (snd res) r2)"
proof (rule randBytes_loop.raw_induct
    [where P = "\<lambda>s1 res. \<forall>s2::rb_state. rb_b s1 = rb_b s2 \<and> rb_i s1 = rb_i s2 \<and> rb_cache s1 = rb_cache s2
     \<and> rb_remain s1 = rb_remain s2 \<and> same_stream (rb_src s1) (rb_src s2)
     \<longrightarrow> (\<exists>r2. randBytes_loop s2 = Some (fst res, r2) \<and> same_stream (snd res) r2)",
     OF _ h])
  fix loop :: "rb_state \<Rightarrow> (string \<times> Rand) option" and s1 res
  assume ih: "\<And>s b. loop s = Some b \<Longrightarrow>
        \<forall>s2::rb_state. rb_b s = rb_b s2 \<and> rb_i s = rb_i s2 \<and> rb_cache s = rb_cache s2
          \<and> rb_remain s = rb_remain s2 \<and> same_stream (rb_src s) (rb_src s2)
          \<longrightarrow> (\<exists>r2. randBytes_loop s2 = Some (fst b, r2) \<and> same_stream (snd b) r2)"
    and eq: "(if 0 \<le> rb_i s1 then loop (rb_shift (rb_pick (rb_refill s1)))
              else Some (rb_b s1, rb_src s1)) = Some res"
  show "\<forall>s2::rb_state. rb_b s1 = rb_b s2 \<and> rb_i s1 = rb_i s2 \<and> rb_cache s1 = rb_cache s2
          \<and> rb_remain s1 = rb_remain s2 \<and> same_stream (rb_src s1) (rb_src s2)
          \<longrightarrow> (\<exists>r2. randBytes_loop s2 = Some (fst res, r2) \<and> same_stream (snd res) r2)"
  proof (intro allI impI)
    fix s2 :: rb_state
    assume rel: "rb_b s1 = rb_b s2 \<and> rb_i s1 = rb_i s2 \<and> rb_cache s1 = rb_cache s2
          \<and> rb_remain s1 = rb_remain s2 \<and> same_stream (rb_src s1) (rb_src s2)"
    show "\<exists>r2. randBytes_loop s2 = Some (fst res, r2) \<and> same_stream (snd res) r2"
    proof (cases "0 \<le> rb_i s1")
      case True
      with eq have l: "loop (rb_shift (rb_pick (rb_refill s1))) = Some res" by simp
      have st: "rb_b (rb_shift (rb_pick (rb_refill s1))) = rb_b (rb_shift (rb_pick (rb_refill s2)))
       \<and> rb_i (rb_shift (rb_pick (rb_refill s1))) = rb_i (rb_shift (rb_pick (rb_refill s2)))
       \<and> rb_cache (rb_shift (rb_pick (rb_refill s1))) = rb_cache (rb_shift (rb_pick (rb_refill s2)))
       \<and> rb_remain (rb_shift (rb_pick (rb_refill s1))) = rb_remain (rb_shift (rb_pick (rb_refill s2)))
       \<and> same_stream (rb_src (rb_shift (rb_pick (rb_refill s1))))
            (rb_src (rb_shift (rb_pick (rb_refill s2))))"
        by (rule rb_step_sim) (use rel in simp_all)
      from ih [OF l] st obtain r2 where
        r2: "randBytes_loop (rb_shift (rb_pick (rb_refill s2))) = Some (fst res, r2)"
            "same_stream (snd res) r2" by blast
      have "randBytes_loop s2 = randBytes_loop (rb_shift (rb_pick (rb_refill s2)))"
        using True rel by (subst randBytes_loop.simps) simp
      with r2 show ?thesis by simp
    next
      case False
      with eq have res: "res = (rb_b s1, rb_src s1)" by simp
      have "randBytes_loop s2 = Some (rb_b s2, rb_src s2)"
        using False rel by (subst randBytes_loop.simps) simp
      with res rel show ?thesis by simp
    qed
  qed
qed

lemma randBytes_from_sim:
  assumes ss: "same_stream r1 r2" and r: "randBytes_from n r1 = Some x"
  shows "map_option (map_sum id fst) (randBytes_from n r2) = Some (map_sum id fst x)"
proof (cases "n < 0")
  case True
  with r show ?thesis by (auto simp: randBytes_from_def)
next
  case False
  let ?s1 = "\<lparr>rb_b = replicate (nat n) (CHR 0x00), rb_i = n - 1, rb_cache = draws r1 (pos r1),
              rb_remain = letterIdxMax, rb_src = r1\<lparr>pos := Suc (pos r1)\<rparr>\<rparr>"
  let ?s2 = "\<lparr>rb_b = replicate (nat n) (CHR 0x00), rb_i = n - 1, rb_cache = draws r2 (pos r2),
              rb_remain = letterIdxMax, rb_src = r2\<lparr>pos := Suc (pos r2)\<rparr>\<rparr>"
  from r False obtain res where l: "randBytes_loop ?s1 = Some res" and x: "x = Inr res"
    by (auto simp: randBytes_from_def Int63_def)
  note n = same_stream_next [OF ss]
  have rel: "rb_b ?s1 = rb_b ?s2 \<and> rb_i ?s1 = rb_i ?s2 \<and> rb_cache ?s1 = rb_cache ?s2
     \<and> rb_remain ?s1 = rb_remain ?s2 \<and> same_stream (rb_src ?s1) (rb_src ?s2)"
    using n by simp
  from randBytes_loop_sim [OF l] rel obtain r2' where
    "randBytes_loop ?s2 = Some (fst res, r2')" by blast
  then show ?thesis using False x by (simp add: randBytes_from_def Int63_def)
qed

lemma randBytes_from_same_stream:
  assumes ss: "same_stream r1 r2"
  shows "map_option (map_sum id fst) (randBytes_from n r1)
       = map_option (map_sum id fst) (randBytes_from n r2)"
proof (cases "randBytes_from n r1")
  case (Some x)
  from randBytes_from_sim [OF ss Some] Some show ?thesis by auto
next
  case None
  show ?thesis
  proof (cases "randBytes_from n r2")
    case n2: None
    with None show ?thesis by simp
  next
    case (Some y)
    from randBytes_from_sim [OF same_stream_sym [OF ss] Some] None show ?thesis by auto
  qed
qed

text \<open>
  Pool generation by one factory on two disks that hold the same pool files: the factory
  is left in the same state, and every file that the runs had to write gets the same
  content on both disks.
\<close>

lemma pool_loop_same_presence:
  "pool_loop L sz cnt i fsA f = Some (fsA', fA, None)
   \<Longrightarrow> pool_loop L sz cnt i fsB f = Some (fsB', fB, None)
   \<Longrightarrow> \<forall>k. i \<le> k \<and> k < cnt \<longrightarrow>
         (files fsA (poolPath L (imageDir f) sz k) = None)
         = (files fsB (poolPath L (imageDir f) sz k) = None)
   \<Longrightarrow> fA = fB
     \<and> (\<forall>k. i \<le> k \<and> k < cnt \<and> files fsA (poolPath L (imageDir f) sz k) = None \<longrightarrow>
          (\<exists>bs. map_option content (files fsA' (poolPath L (imageDir f) sz k)) = Some bs
             \<and> map_option content (files fsB' (poolPath L (imageDir f) sz k)) = Some bs))"
proof (induction "cnt - i" arbitrary: i fsA fsB f)
  case 0
  then have "\<not> i < cnt" by simp
  with "0.prems" show ?case by (simp add: pool_loop_done)
next
  case (Suc d)
  then have lt: "i < cnt" by simp
  have d: "d = cnt - Suc i" using Suc.hyps(2) by simp
  let ?path = "poolPath L (imageDir f) sz"
  let ?f1 = "f\<lparr>allGeneratedFiles := allGeneratedFiles f @ [?path i]\<rparr>"
  have pres_i: "(files fsA (?path i) = None) = (files fsB (?path i) = None)"
    using Suc.prems(3) lt by simp
  from Suc.prems(1) lt show ?case
  proof (cases rule: pool_loop_cases)
    case exA: (exists fsA1 infoA)
    from os_Stat_Inr [OF exA(1)] have hereA: "files fsA (?path i) \<noteq> None"
      and fA1: "files fsA1 = files fsA" by auto
    from Suc.prems(2) lt show ?thesis
    proof (cases rule: pool_loop_cases)
      case exB: (exists fsB1 infoB)
      from os_Stat_Inr [OF exB(1)] have fB1: "files fsB1 = files fsB" by auto
      have pres: "\<forall>k. Suc i \<le> k \<and> k < cnt \<longrightarrow>
         (files fsA1 (poolPath L (imageDir ?f1) sz k) = None)
         = (files fsB1 (poolPath L (imageDir ?f1) sz k) = None)"
        using Suc.prems(3) fA1 fB1 by simp
      from Suc.hyps(1) [OF d exA(2) exB(2) pres]
      have ih: "fA = fB"
        "\<forall>k. Suc i \<le> k \<and> k < cnt \<and> files fsA1 (?path k) = None \<longrightarrow>
          (\<exists>bs. map_option content (files fsA' (?path k)) = Some bs
             \<and> map_option content (files fsB' (?path k)) = Some bs)"
        by simp_all
      have "\<forall>k. i \<le> k \<and> k < cnt \<and> files fsA (?path k) = None \<longrightarrow>
          (\<exists>bs. map_option content (files fsA' (?path k)) = Some bs
             \<and> map_option content (files fsB' (?path k)) = Some bs)"
      proof (intro allI impI)
        fix k assume k: "i \<le> k \<and> k < cnt \<and> files fsA (?path k) = None"
        then have "k \<noteq> i" using hereA by auto
        then have "Suc i \<le> k" using k by simp
        with ih(2) k fA1 show "\<exists>bs. map_option content (files fsA' (?path k)) = Some bs
             \<and> map_option content (files fsB' (?path k)) = Some bs" by simp
      qed
      with ih(1) show ?thesis by simp
    next
      case wrB: (written fsB1 bsB f2B fsB2)
      from os_Stat_NotExist [OF wrB(1)] hereA pres_i show ?thesis by simp
    qed simp_all
  next
    case wrA: (written fsA1 bs f2 fsA2)
    from os_Stat_NotExist [OF wrA(1)] have goneA: "files fsA (?path i) = None"
      and fA1: "files fsA1 = files fsA" by auto
    from randBytes_fields [OF wrA(2)] have dir2: "imageDir f2 = imageDir f" by simp
    from Suc.prems(2) lt show ?thesis
    proof (cases rule: pool_loop_cases)
      case exB: (exists fsB1 infoB)
      from os_Stat_Inr [OF exB(1)] goneA pres_i show ?thesis by auto
    next
      case wrB: (written fsB1 bsB f2B fsB2)
      from os_Stat_NotExist [OF wrB(1)] have fB1: "files fsB1 = files fsB" by auto
      have same: "bsB = bs" "f2B = f2" using wrA(2) wrB(2) by simp_all
      from ioutil_WriteFile_None [OF wrA(3)] fA1
      have fA2: "files fsA2 = (files fsA)(?path i \<mapsto> \<lparr>content = bs, modTime = length (oplog fsA1)\<rparr>)"
        by simp
      from ioutil_WriteFile_None [OF wrB(3)] fB1 same
      have fB2: "files fsB2 = (files fsB)(?path i \<mapsto> \<lparr>content = bs, modTime = length (oplog fsB1)\<rparr>)"
        by simp
      have pres: "\<forall>k. Suc i \<le> k \<and> k < cnt \<longrightarrow>
         (files fsA2 (poolPath L (imageDir f2) sz k) = None)
         = (files fsB2 (poolPath L (imageDir f2) sz k) = None)"
        using Suc.prems(3) fA2 fB2 dir2 by simp
      have rB: "pool_loop L sz cnt (Suc i) fsB2 f2 = Some (fsB', fB, None)"
        using wrB(4) same by simp
      from Suc.hyps(1) [OF d wrA(4) rB pres] dir2
      have ih: "fA = fB"
        "\<forall>k. Suc i \<le> k \<and> k < cnt \<and> files fsA2 (?path k) = None \<longrightarrow>
          (\<exists>bs. map_option content (files fsA' (?path k)) = Some bs
             \<and> map_option content (files fsB' (?path k)) = Some bs)"
        by simp_all
      have hereA2: "files fsA2 (?path i) = Some \<lparr>content = bs, modTime = length (oplog fsA1)\<rparr>"
        using fA2 by simp
      have hereB2: "files fsB2 (?path i) = Some \<lparr>content = bs, modTime = length (oplog fsB1)\<rparr>"
        using fB2 by simp
      from pool_loop_preserves [OF wrA(4) hereA2]
      have cA: "map_option content (files fsA' (?path i)) = Some bs" by simp
      from pool_loop_preserves [OF rB hereB2]
      have cB: "map_option content (files fsB' (?path i)) = Some bs" by simp
      have "\<forall>k. i \<le> k \<and> k < cnt \<and> files fsA (?path k) = None \<longrightarrow>
          (\<exists>bs. map_option content (files fsA' (?path k)) = Some bs
             \<and> map_option content (files fsB' (?path k)) = Some bs)"
      proof (intro allI impI)
        fix k assume k: "i \<le> k \<and> k < cnt \<and> files fsA (?path k) = None"
        show "\<exists>bs. map_option content (files fsA' (?path k)) = Some bs
             \<and> map_option content (files fsB' (?path k)) = Some bs"
        proof (cases "?path k = ?path i")
          case True
          show ?thesis unfolding True by (rule exI [of _ bs]) (intro conjI cA cB)
        next
          case False
          then have "k \<noteq> i" by auto
          then have "Suc i \<le> k" using k by simp
          moreover have "files fsA2 (?path k) = None" using fA2 False k by simp
          ultimately show ?thesis using ih(2) k by simp
        qed
      qed
      with ih(1) show ?thesis by simp
    qed simp_all
  qed simp_all
qed

lemma generateRandomFilePool_same_presence:
  assumes a: "generateRandomFilePool L fsA f sz cnt = Some (fsA', fA, None)"
    and b: "generateRandomFilePool L fsB f sz cnt = Some (fsB', fB, None)"
    and p: "same_pool_files L (imageDir f) sz (unat cnt) fsA fsB"
  shows "fA = fB
     \<and> (\<forall>k. k < unat cnt \<and> files fsA (poolPath L (imageDir f) sz k) = None \<longrightarrow>
          (\<exists>bs. map_option content (files fsA' (poolPath L (imageDir f) sz k)) = Some bs
             \<and> map_option content (files fsB' (poolPath L (imageDir f) sz k)) = Some bs))"
proof -
  from generateRandomFilePool_success [OF a] obtain fsA0 where
    a0: "os_MkdirAll fsA (imageDir f) = (fsA0, None)"
        "pool_loop L sz (unat cnt) 0 fsA0 f = Some (fsA', fA, None)" by blast
  from generateRandomFilePool_success [OF b] obtain fsB0 where
    b0: "os_MkdirAll fsB (imageDir f) = (fsB0, None)"
        "pool_loop L sz (unat cnt) 0 fsB0 f = Some (fsB', fB, None)" by blast
  note ea = os_MkdirAll_effect [OF a0(1)] and eb = os_MkdirAll_effect [OF b0(1)]
  have pres: "\<forall>k. 0 \<le> k \<and> k < unat cnt \<longrightarrow>
         (files fsA0 (poolPath L (imageDir f) sz k) = None)
         = (files fsB0 (poolPath L (imageDir f) sz k) = None)"
    using p ea eb by (simp add: same_pool_files_def)
  from pool_loop_same_presence [OF a0(2) b0(2) pres] ea show ?thesis by simp
qed

text \<open>
  C1, as amended. The bytes that \<open>randBytes\<close> returns are a function of the requested
  length and of the values the factory's source has still to deliver, that is of the seed
  and of the number of values drawn before the call: two factories whose sources have the
  same stream ahead return identical bytes for the same length, and either both calls
  return or neither does. In the older variant every call starts from the seed, so it
  returns what the first call of a new factory of that seed returns in the current
  variant. For two runs of pool generation by new factories of the same seed, with the
  same layer size and count, on disks that hold the same pool files, every file that had
  to be written holds the same bytes after both runs.
\<close>

theorem randBytes_deterministic:
  "(same_stream (src f1) (src f2) \<longrightarrow>
      map_option (map_sum id fst) (randBytes n f1) = map_option (map_sum id fst) (randBytes n f2))
   \<and> (Seed g = seed \<longrightarrow>
      randBytes_legacy L n g
      = map_option (map_sum id fst) (randBytes n (NewRandomImageFactory L seed)))
   \<and> (generateRandomFilePool L fsA (NewRandomImageFactory L seed) layerSizeKB layerCount
         = Some (fsA', fA, None)
       \<and> generateRandomFilePool L fsB (NewRandomImageFactory L seed) layerSizeKB layerCount
         = Some (fsB', fB, None)
       \<and> same_pool_files L (imageDir (NewRandomImageFactory L seed)) layerSizeKB
           (unat layerCount) fsA fsB
       \<and> k < unat layerCount
       \<and> files fsA (poolPath L (imageDir (NewRandomImageFactory L seed)) layerSizeKB k) = None
      \<longrightarrow> (\<exists>bs.
            map_option content
              (files fsA' (poolPath L (imageDir (NewRandomImageFactory L seed)) layerSizeKB k))
              = Some bs
            \<and> map_option content
              (files fsB' (poolPath L (imageDir (NewRandomImageFactory L seed)) layerSizeKB k))
              = Some bs))"
proof (intro conjI impI)
  have fr: "\<And>f. map_option (map_sum id fst) (randBytes n f)
              = map_option (map_sum id fst) (randBytes_from n (src f))"
    by (simp add: randBytes_def option.map_comp sum.map_comp comp_def case_prod_unfold id_def)
  {
    assume "same_stream (src f1) (src f2)"
    then show "map_option (map_sum id fst) (randBytes n f1)
        = map_option (map_sum id fst) (randBytes n f2)"
      unfolding fr by (rule randBytes_from_same_stream)
  }
  {
    assume "Seed g = seed"
    then show "randBytes_legacy L n g
        = map_option (map_sum id fst) (randBytes n (NewRandomImageFactory L seed))"
      unfolding fr by (simp add: randBytes_legacy_def NewRandomImageFactory_def)
  }
next
  let ?f = "NewRandomImageFactory L seed"
  assume h: "generateRandomFilePool L fsA ?f layerSizeKB layerCount = Some (fsA', fA, None)
       \<and> generateRandomFilePool L fsB ?f layerSizeKB layerCount = Some (fsB', fB, None)
       \<and> same_pool_files L (imageDir ?f) layerSizeKB (unat layerCount) fsA fsB
       \<and> k < unat layerCount
       \<and> files fsA (poolPath L (imageDir ?f) layerSizeKB k) = None"
  then have a: "generateRandomFilePool L fsA ?f layerSizeKB layerCount = Some (fsA', fA, None)"
    and b: "generateRandomFilePool L fsB ?f layerSizeKB layerCount = Some (fsB', fB, None)"
    and p: "same_pool_files L (imageDir ?f) layerSizeKB (unat layerCount) fsA fsB"
    and k: "k < unat layerCount \<and> files fsA (poolPath L (imageDir ?f) layerSizeKB k) = None"
    by simp_all
  from generateRandomFilePool_same_presence [OF a b p] k
  show "\<exists>bs. map_option content (files fsA' (poolPath L (imageDir ?f) layerSizeKB k)) = Some bs
            \<and> map_option content (files fsB' (poolPath L (imageDir ?f) layerSizeKB k)) = Some bs"
    by blast
qed

lemma two_calls_of_one_factory:
  "(case randBytes 4 (NewRandomImageFactory toy_lib 7) of
      Some (Inr (b1, f1)) \<Rightarrow>
        (case randBytes 4 f1 of Some (Inr (b2, f2)) \<Rightarrow> Some (b1, b2) | _ \<Rightarrow> None)
    | _ \<Rightarrow> None)
   = Some (''psAd'', ''bDSM'')"
  by code_simp

text \<open>
  C1 as stated fails: a factory of the current variant built from seed 7 (on the toy
  source), asked twice for 4 bytes, returns \<open>psAd\<close> and then \<open>bDSM\<close>. Seed and length
  are the same in both calls; the second call continues where the first left the source.
\<close>

theorem second_call_returns_other_bytes:
  "\<exists>f1 f2. randBytes 4 (NewRandomImageFactory toy_lib 7) = Some (Inr (''psAd'', f1))
     \<and> randBytes 4 f1 = Some (Inr (''bDSM'', f2)) \<and> ''psAd'' \<noteq> ''bDSM''"
proof -
  note t = two_calls_of_one_factory
  from t obtain b1 f1 where c1: "randBytes 4 (NewRandomImageFactory toy_lib 7) = Some (Inr (b1, f1))"
    by (cases "randBytes 4 (NewRandomImageFactory toy_lib 7)")
       (auto split: sum.splits)
  from t c1 obtain b2 f2 where c2: "randBytes 4 f1 = Some (Inr (b2, f2))"
    by (cases "randBytes 4 f1") (auto split: sum.splits)
  from t c1 c2 have "b1 = ''psAd''" "b2 = ''bDSM''" by simp_all
  with c1 c2 show ?thesis by auto
qed

text \<open>
  C4, as amended. The order the shuffler leaves is a function of the state of the random
  source when the shuffler starts and of the list. For a given seed, layer size and layer
  count that state depends on the pool files that are on disk when the run starts: two
  runs of pool generation by new factories of the same seed, on disks that hold the same
  pool files, leave the same list and the same source, and the shuffler then leaves the
  same order in both. In the older variant the shuffler draws from the process-wide
  source of \<open>rand.Intn\<close>: the order is a function of that source and of the list, and
  the \<open>Seed\<close> of the factory plays no part.
\<close>

theorem shuffle_deterministic:
  "(generateRandomFilePool L fsA (NewRandomImageFactory L seed) layerSizeKB layerCount
         = Some (fsA', fA, None)
       \<and> generateRandomFilePool L fsB (NewRandomImageFactory L seed) layerSizeKB layerCount
         = Some (fsB', fB, None)
       \<and> same_pool_files L (imageDir (NewRandomImageFactory L seed)) layerSizeKB
           (unat layerCount) fsA fsB
      \<longrightarrow> src fA = src fB \<and> allGeneratedFiles fA = allGeneratedFiles fB
          \<and> map_sum id allGeneratedFiles (shuffleGeneratedFilePaths L fA)
            = map_sum id allGeneratedFiles (shuffleGeneratedFilePaths L fB))
   \<and> (allGeneratedFiles_legacy g1 = allGeneratedFiles_legacy g2 \<longrightarrow>
      map_sum id (\<lambda>(f', r). (allGeneratedFiles_legacy f', r)) (shuffleGeneratedFilePaths_legacy L g g1)
      = map_sum id (\<lambda>(f', r). (allGeneratedFiles_legacy f', r)) (shuffleGeneratedFilePaths_legacy L g g2))"
proof (intro conjI impI)
  let ?f = "NewRandomImageFactory L seed"
  assume h: "generateRandomFilePool L fsA ?f layerSizeKB layerCount = Some (fsA', fA, None)
       \<and> generateRandomFilePool L fsB ?f layerSizeKB layerCount = Some (fsB', fB, None)
       \<and> same_pool_files L (imageDir ?f) layerSizeKB (unat layerCount) fsA fsB"
  then have a: "generateRandomFilePool L fsA ?f layerSizeKB layerCount = Some (fsA', fA, None)"
    and b: "generateRandomFilePool L fsB ?f layerSizeKB layerCount = Some (fsB', fB, None)"
    and p: "same_pool_files L (imageDir ?f) layerSizeKB (unat layerCount) fsA fsB"
    by simp_all
  from generateRandomFilePool_same_presence [OF a b p] have eq: "fA = fB" by blast
  show "src fA = src fB" "allGeneratedFiles fA = allGeneratedFiles fB"
    "map_sum id allGeneratedFiles (shuffleGeneratedFilePaths L fA)
       = map_sum id allGeneratedFiles (shuffleGeneratedFilePaths L fB)"
    by (simp_all only: eq)
next
  assume "allGeneratedFiles_legacy g1 = allGeneratedFiles_legacy g2"
  then show "map_sum id (\<lambda>(f', r). (allGeneratedFiles_legacy f', r)) (shuffleGeneratedFilePaths_legacy L g g1)
      = map_sum id (\<lambda>(f', r). (allGeneratedFiles_legacy f', r)) (shuffleGeneratedFilePaths_legacy L g g2)"
    by (simp add: shuffleGeneratedFilePaths_legacy_def sum.map_comp comp_def case_prod_unfold)
qed

lemma first_run_and_rerun:
  "(case generateRandomFilePool toy_lib empty_fs (NewRandomImageFactory toy_lib 7) 0 3 of
      Some (fs1, f1, None) \<Rightarrow>
        (case generateRandomFilePool toy_lib fs1 (NewRandomImageFactory toy_lib 7) 0 3 of
           Some (fs2, f2, None) \<Rightarrow>
             Some (allGeneratedFiles f1, allGeneratedFiles f2,
                   map_sum id allGeneratedFiles (shuffleGeneratedFilePaths toy_lib f1),
                   map_sum id allGeneratedFiles (shuffleGeneratedFilePaths toy_lib f2))
         | _ \<Rightarrow> None)
    | _ \<Rightarrow> None)
   = Some ([''./generated-files/7/random_0KB_0.txt'', ''./generated-files/7/random_0KB_1.txt'',
            ''./generated-files/7/random_0KB_2.txt''],
           [''./generated-files/7/random_0KB_0.txt'', ''./generated-files/7/random_0KB_1.txt'',
            ''./generated-files/7/random_0KB_2.txt''],
           Inr [''./generated-files/7/random_0KB_0.txt'', ''./generated-files/7/random_0KB_1.txt'',
                ''./generated-files/7/random_0KB_2.txt''],
           Inr [''./generated-files/7/random_0KB_0.txt'', ''./generated-files/7/random_0KB_2.txt'',
                ''./generated-files/7/random_0KB_1.txt''])"
  by code_simp

text \<open>
  C4 as stated fails: a new factory of seed 7 (on the toy source) that generates a pool of
  three files on an empty disk shuffles the list to the order 0, 1, 2; a second new
  factory of seed 7, run on the disk the first one left, shuffles the same list to the
  order 0, 2, 1. Neither run returns an error.
\<close>

theorem rerun_shuffles_to_other_order:
  "\<exists>fs1 f1 fs2 f2 xs ys.
     generateRandomFilePool toy_lib empty_fs (NewRandomImageFactory toy_lib 7) 0 3
       = Some (fs1, f1, None)
     \<and> generateRandomFilePool toy_lib fs1 (NewRandomImageFactory toy_lib 7) 0 3
       = Some (fs2, f2, None)
     \<and> allGeneratedFiles f1 = allGeneratedFiles f2
     \<and> map_sum id allGeneratedFiles (shuffleGeneratedFilePaths toy_lib f1) = Inr xs
     \<and> map_sum id allGeneratedFiles (shuffleGeneratedFilePaths toy_lib f2) = Inr ys
     \<and> xs \<noteq> ys"
proof -
  let ?F = "NewRandomImageFactory toy_lib 7"
  note t = first_run_and_rerun
  from t obtain fs1 f1 where r1: "generateRandomFilePool toy_lib empty_fs ?F 0 3 = Some (fs1, f1, None)"
    by (cases "generateRandomFilePool toy_lib empty_fs ?F 0 3") (auto split: option.splits)
  from t r1 obtain fs2 f2 where r2: "generateRandomFilePool toy_lib fs1 ?F 0 3 = Some (fs2, f2, None)"
    by (cases "generateRandomFilePool toy_lib fs1 ?F 0 3") (auto split: option.splits)
  from t r1 r2 have
    v: "allGeneratedFiles f1 = allGeneratedFiles f2"
       "map_sum id allGeneratedFiles (shuffleGeneratedFilePaths toy_lib f1)
          = Inr [''./generated-files/7/random_0KB_0.txt'', ''./generated-files/7/random_0KB_1.txt'',
                ''./generated-files/7/random_0KB_2.txt'']"
       "map_sum id allGeneratedFiles (shuffleGeneratedFilePaths toy_lib f2)
          = Inr [''./generated-files/7/random_0KB_0.txt'', ''./generated-files/7/random_0KB_2.txt'',
                ''./generated-files/7/random_0KB_1.txt'']"
    by simp_all
  have ne: "[''./generated-files/7/random_0KB_0.txt'', ''./generated-files/7/random_0KB_1.txt'',
             ''./generated-files/7/random_0KB_2.txt'']
          \<noteq> [''./generated-files/7/random_0KB_0.txt'', ''./generated-files/7/random_0KB_2.txt'',
             ''./generated-files/7/random_0KB_1.txt'']"
    by simp
  from r1 r2 v ne show ?thesis by blast
qed

section \<open>Failures of the filesystem\<close>

lemma Unwrap_formats:
  "Unwrap (Errorf ''error checking if file exists: %w'' [Err e]) = Some e"
  "Unwrap (Errorf ''error writing random bytes to file: %w'' [Err e]) = Some e"
  "Unwrap (Errorf ''failed creating directory %q: %w'' [Str p, Err e]) = Some e"
  "Unwrap (Errorf ''failed to write to %q: %w'' [Str p, Err e]) = Some e"
  "Unwrap (Errorf ''failed to create tar archive %q: %w'' [Str p, Err e]) = Some e"
  "Unwrap (Errorf ''failed to read file info %q: %w'' [Str p, Err e]) = Some e"
  "Unwrap (Errorf ''failed to read file %q: %w'' [Str p, Err e]) = Some e"
  "Unwrap (Errorf ''failed to write tar header: %w'' [Err e]) = Some e"
  "Unwrap (Errorf ''failed to write tar body: %w'' [Err e]) = Some e"
  by (simp_all add: consumed_def)

declare Unwrap.simps [simp del]

lemma returned_at_failure_Cons:
  "benign ev \<Longrightarrow> returned_at_failure benign r evs \<Longrightarrow> returned_at_failure benign r (ev # evs)"
  by (cases r) (auto simp: returned_at_failure_def)

lemma returned_at_failure_single:
  "\<not> benign (op, p, Some c) \<Longrightarrow> Unwrap e = Some (PathError p c)
   \<Longrightarrow> returned_at_failure benign (Some e) [(op, p, Some c)]"
  by (auto simp: returned_at_failure_def carries_cause_def carries_path_def)

lemma os_Stat_log_Inr:
  "os_Stat fs p = (fs1, Inr sz) \<Longrightarrow> oplog fs1 = oplog fs @ [(OpStat, p, None)]"
  by (auto simp: os_Stat_def logged_def split: option.splits)

lemma os_Stat_log_Inl:
  "os_Stat fs p = (fs1, Inl e) \<Longrightarrow>
   \<exists>c. e = PathError p c \<and> oplog fs1 = oplog fs @ [(OpStat, p, Some c)]"
  by (auto simp: os_Stat_def logged_def split: option.splits)

lemma ioutil_ReadFile_log_Inr:
  "ioutil_ReadFile fs p = (fs1, Inr bs) \<Longrightarrow> oplog fs1 = oplog fs @ [(OpReadFile, p, None)]"
  by (auto simp: ioutil_ReadFile_def logged_def split: option.splits)

lemma ioutil_ReadFile_log_Inl:
  "ioutil_ReadFile fs p = (fs1, Inl e) \<Longrightarrow>
   \<exists>c. e = PathError p c \<and> oplog fs1 = oplog fs @ [(OpReadFile, p, Some c)] \<and> files fs1 = files fs"
  by (auto simp: ioutil_ReadFile_def logged_def split: option.splits)

lemma ioutil_WriteFile_log_None:
  "ioutil_WriteFile fs p bs = (fs1, None) \<Longrightarrow> oplog fs1 = oplog fs @ [(OpWriteFile, p, None)]"
  by (auto simp: ioutil_WriteFile_def logged_def split: option.splits)

lemma ioutil_WriteFile_log_Some:
  "ioutil_WriteFile fs p bs = (fs1, Some e) \<Longrightarrow>
   \<exists>c. e = PathError p c \<and> oplog fs1 = oplog fs @ [(OpWriteFile, p, Some c)]"
  by (auto simp: ioutil_WriteFile_def logged_def split: option.splits)

lemma os_MkdirAll_log_None:
  "os_MkdirAll fs p = (fs1, None) \<Longrightarrow> oplog fs1 = oplog fs @ [(OpMkdirAll, p, None)]"
  by (auto simp: os_MkdirAll_def logged_def split: option.splits)

lemma os_MkdirAll_log_Some:
  "os_MkdirAll fs p = (fs1, Some e) \<Longrightarrow>
   \<exists>c. e = PathError p c \<and> oplog fs1 = oplog fs @ [(OpMkdirAll, p, Some c)]"
  by (auto simp: os_MkdirAll_def logged_def split: option.splits)

lemma os_Create_log_None:
  "os_Create fs p = (fs1, None) \<Longrightarrow>
   oplog fs1 = oplog fs @ [(OpCreate, p, None)] \<and> files fs1 p \<noteq> None"
  by (auto simp: os_Create_def logged_def split: option.splits)

lemma os_Create_log_Some:
  "os_Create fs p = (fs1, Some e) \<Longrightarrow>
   \<exists>c. e = PathError p c \<and> oplog fs1 = oplog fs @ [(OpCreate, p, Some c)]"
  by (auto simp: os_Create_def logged_def split: option.splits)

lemma tw_WriteHeader_log_None:
  "tw_WriteHeader fs tw h = (fs1, tw1, None) \<Longrightarrow>
   oplog fs1 = oplog fs @ [(OpTarWriteHeader, tw_file tw, None)] \<and> tw_file tw1 = tw_file tw"
  by (auto simp: tw_WriteHeader_def logged_def split: option.splits)

lemma tw_WriteHeader_log_Some:
  "tw_WriteHeader fs tw h = (fs1, tw1, Some e) \<Longrightarrow>
   \<exists>c. e = PathError (tw_file tw) c \<and> oplog fs1 = oplog fs @ [(OpTarWriteHeader, tw_file tw, Some c)]
     \<and> files fs1 = files fs"
  by (auto simp: tw_WriteHeader_def logged_def split: option.splits)

lemma tw_Write_log_None:
  "tw_Write fs tw bs = (fs1, tw1, None) \<Longrightarrow>
   oplog fs1 = oplog fs @ [(OpTarWrite, tw_file tw, None)] \<and> tw_file tw1 = tw_file tw
   \<and> files fs1 = files fs"
  by (auto simp: tw_Write_def logged_def split: option.splits)

lemma tw_Write_log_Some:
  "tw_Write fs tw bs = (fs1, tw1, Some e) \<Longrightarrow>
   \<exists>c. e = PathError (tw_file tw) c \<and> oplog fs1 = oplog fs @ [(OpTarWrite, tw_file tw, Some c)]
     \<and> files fs1 = files fs"
  by (auto simp: tw_Write_def logged_def split: option.splits)

lemma tw_Close_log:
  "\<exists>c. oplog (fst (tw_Close fs tw)) = oplog fs @ [(OpTarClose, tw_file tw, c)]"
  by (auto simp: tw_Close_def logged_def split: option.splits)

lemma artifacts_kept_simps [simp]:
  "artifacts_kept [] fs"
  "artifacts_kept (ev # evs) fs =
     (((fst ev = OpWriteFile \<or> fst ev = OpCreate) \<and> succeeded ev \<longrightarrow> files fs (fst (snd ev)) \<noteq> None)
      \<and> artifacts_kept evs fs)"
  by (simp_all add: artifacts_kept_def)

lemma artifacts_kept_append [simp]:
  "artifacts_kept (xs @ ys) fs = (artifacts_kept xs fs \<and> artifacts_kept ys fs)"
  by (auto simp: artifacts_kept_def)

lemma pool_loop_log:
  "pool_loop L sz cnt i fs f = Some (fs', f', r) \<Longrightarrow>
   \<exists>evs. oplog fs' = oplog fs @ evs
     \<and> returned_at_failure pool_benign r evs \<and> artifacts_kept evs fs'"
proof (induction "cnt - i" arbitrary: i fs f)
  case 0
  then have "fs' = fs \<and> r = None" by (simp add: pool_loop_done)
  then show ?case by (simp add: returned_at_failure_def)
next
  case (Suc d)
  then have lt: "i < cnt" by simp
  have d: "d = cnt - Suc i" using Suc.hyps(2) by simp
  let ?p = "poolPath L (imageDir f) sz i"
  let ?R = "returned_at_failure pool_benign"
  from Suc.prems(1) lt show ?case
  proof (cases rule: pool_loop_cases)
    case (exists fs1 info)
    note l1 = os_Stat_log_Inr [OF exists(1)]
    from Suc.hyps(1) [OF d exists(2)] obtain evs where
      e: "oplog fs' = oplog fs1 @ evs" "?R r evs" "artifacts_kept evs fs'" by blast
    have "pool_benign (OpStat, ?p, None)" by (simp add: pool_benign_def succeeded_def)
    from returned_at_failure_Cons [OF this e(2)] have "?R r ((OpStat, ?p, None) # evs)" .
    moreover have "oplog fs' = oplog fs @ ((OpStat, ?p, None) # evs)" using e(1) l1 by simp
    moreover have "artifacts_kept ((OpStat, ?p, None) # evs) fs'" using e(3) by simp
    ultimately show ?thesis by blast
  next
    case (stat_err fs1 err)
    from os_Stat_log_Inl [OF stat_err(1)] obtain c where
      c: "err = PathError ?p c" and l1: "oplog fs1 = oplog fs @ [(OpStat, ?p, Some c)]" by blast
    have nb: "\<not> pool_benign (OpStat, ?p, Some c)"
      using stat_err(2) c by (simp add: pool_benign_def succeeded_def)
    have "?R (Some (Errorf ''error checking if file exists: %w'' [Err err])) [(OpStat, ?p, Some c)]"
      using nb by (rule returned_at_failure_single) (simp add: Unwrap_formats c)
    moreover have "artifacts_kept [(OpStat, ?p, Some c)] fs1" by simp
    ultimately show ?thesis using stat_err(3) l1 by auto
  next
    case (panic fs1 e')
    from os_Stat_log_Inl [OF panic(1)]
    have l1: "oplog fs1 = oplog fs @ [(OpStat, ?p, Some ErrNotExist)]" by auto
    have "\<exists>m. e' = Panic m"
      using panic(2)
      by (cases "randBytes_from (poolFileLen sz) (src f)")
         (auto simp: randBytes_def randBytes_from_def map_sum_def split: if_splits sum.splits prod.splits)
    then have "?R (Some e') [(OpStat, ?p, Some ErrNotExist)]"
      by (auto simp: returned_at_failure_def pool_benign_def)
    moreover have "artifacts_kept [(OpStat, ?p, Some ErrNotExist)] fs1" by simp
    ultimately show ?thesis using panic(3) l1 by auto
  next
    case (write_err fs1 bs f2 fs2 err)
    from os_Stat_log_Inl [OF write_err(1)]
    have l1: "oplog fs1 = oplog fs @ [(OpStat, ?p, Some ErrNotExist)]" by auto
    from ioutil_WriteFile_log_Some [OF write_err(3)] obtain c where
      c: "err = PathError ?p c" and l2: "oplog fs2 = oplog fs1 @ [(OpWriteFile, ?p, Some c)]"
      by blast
    let ?e = "Errorf ''error writing random bytes to file: %w'' [Err err]"
    have "pool_benign (OpStat, ?p, Some ErrNotExist)" by (simp add: pool_benign_def)
    moreover have "?R (Some ?e) [(OpWriteFile, ?p, Some c)]"
      by (rule returned_at_failure_single)
         (simp_all add: pool_benign_def succeeded_def Unwrap_formats c)
    ultimately have "?R (Some ?e) [(OpStat, ?p, Some ErrNotExist), (OpWriteFile, ?p, Some c)]"
      by (rule returned_at_failure_Cons)
    moreover have "artifacts_kept [(OpStat, ?p, Some ErrNotExist), (OpWriteFile, ?p, Some c)] fs2"
      by (simp add: succeeded_def)
    ultimately show ?thesis using write_err(4) l1 l2 by auto
  next
    case (written fs1 bs f2 fs2)
    from os_Stat_log_Inl [OF written(1)]
    have l1: "oplog fs1 = oplog fs @ [(OpStat, ?p, Some ErrNotExist)]" by auto
    note l2 = ioutil_WriteFile_log_None [OF written(3)]
    from Suc.hyps(1) [OF d written(4)] obtain evs where
      e: "oplog fs' = oplog fs2 @ evs" "?R r evs" "artifacts_kept evs fs'" by blast
    from ioutil_WriteFile_None [OF written(3)] obtain fl where "files fs2 ?p = Some fl" by simp
    from pool_loop_preserves [OF written(4) this] have kept: "files fs' ?p \<noteq> None" by simp
    have "pool_benign (OpWriteFile, ?p, None)" by (simp add: pool_benign_def succeeded_def)
    from returned_at_failure_Cons [OF this e(2)] have w: "?R r ((OpWriteFile, ?p, None) # evs)" .
    have "pool_benign (OpStat, ?p, Some ErrNotExist)" by (simp add: pool_benign_def)
    from this w have "?R r ((OpStat, ?p, Some ErrNotExist) # (OpWriteFile, ?p, None) # evs)"
      by (rule returned_at_failure_Cons)
    moreover have "oplog fs' = oplog fs @ ((OpStat, ?p, Some ErrNotExist) # (OpWriteFile, ?p, None) # evs)"
      using e(1) l1 l2 by simp
    moreover have "artifacts_kept ((OpStat, ?p, Some ErrNotExist) # (OpWriteFile, ?p, None) # evs) fs'"
      using e(3) kept by simp
    ultimately show ?thesis by blast
  qed
qed

lemma generateRandomFilePool_log:
  assumes "generateRandomFilePool L fs f sz cnt = Some (fs', f', r)"
  shows "\<exists>evs. oplog fs' = oplog fs @ evs
     \<and> returned_at_failure pool_benign r evs \<and> artifacts_kept evs fs'"
proof -
  let ?R = "returned_at_failure pool_benign"
  obtain fs1 m where m: "os_MkdirAll fs (imageDir f) = (fs1, m)"
    by (cases "os_MkdirAll fs (imageDir f)")
  show ?thesis
  proof (cases m)
    case (Some err)
    from os_MkdirAll_log_Some [OF m [unfolded Some]] obtain c where
      c: "err = PathError (imageDir f) c"
      and l1: "oplog fs1 = oplog fs @ [(OpMkdirAll, imageDir f, Some c)]" by blast
    have "?R (Some (Errorf ''failed creating directory %q: %w'' [Str (imageDir f), Err err]))
            [(OpMkdirAll, imageDir f, Some c)]"
      by (rule returned_at_failure_single)
         (simp_all add: pool_benign_def succeeded_def Unwrap_formats c)
    moreover have "artifacts_kept [(OpMkdirAll, imageDir f, Some c)] fs1" by simp
    ultimately show ?thesis using assms m Some l1 by (auto simp: generateRandomFilePool_def)
  next
    case None
    note l1 = os_MkdirAll_log_None [OF m [unfolded None]]
    have "pool_loop L sz (unat cnt) 0 fs1 f = Some (fs', f', r)"
      using assms m None by (simp add: generateRandomFilePool_def)
    from pool_loop_log [OF this] obtain evs where
      e: "oplog fs' = oplog fs1 @ evs" "?R r evs" "artifacts_kept evs fs'" by blast
    have "pool_benign (OpMkdirAll, imageDir f, None)" by (simp add: pool_benign_def succeeded_def)
    from returned_at_failure_Cons [OF this e(2)]
    have "?R r ((OpMkdirAll, imageDir f, None) # evs)" .
    moreover have "oplog fs' = oplog fs @ ((OpMkdirAll, imageDir f, None) # evs)"
      using e(1) l1 by simp
    moreover have "artifacts_kept ((OpMkdirAll, imageDir f, None) # evs) fs'" using e(3) by simp
    ultimately show ?thesis by blast
  qed
qed

lemma generateDockerfile_log:
  assumes "generateDockerfile fs ps = (fs', d)"
  shows "\<exists>ev. oplog fs' = oplog fs @ [ev]
     \<and> returned_at_failure succeeded (case d of Inl e \<Rightarrow> Some e | Inr n \<Rightarrow> None) [ev]
     \<and> artifacts_kept [ev] fs'"
proof -
  obtain fs1 w where w: "ioutil_WriteFile fs dockerfileName (dockerfileText ps) = (fs1, w)"
    by (cases "ioutil_WriteFile fs dockerfileName (dockerfileText ps)")
  show ?thesis
  proof (cases w)
    case None
    note l = ioutil_WriteFile_log_None [OF w [unfolded None]]
    from ioutil_WriteFile_None [OF w [unfolded None]] have "files fs1 dockerfileName \<noteq> None" by simp
    then show ?thesis using assms w None l
      by (auto simp: generateDockerfile_def returned_at_failure_def succeeded_def)
  next
    case (Some err)
    from ioutil_WriteFile_log_Some [OF w [unfolded Some]] obtain c where
      c: "err = PathError dockerfileName c"
      and l: "oplog fs1 = oplog fs @ [(OpWriteFile, dockerfileName, Some c)]" by blast
    have "returned_at_failure succeeded
            (Some (Errorf ''failed to write to %q: %w'' [Str dockerfileName, Err err]))
            [(OpWriteFile, dockerfileName, Some c)]"
      by (rule returned_at_failure_single) (simp_all add: succeeded_def Unwrap_formats c)
    then show ?thesis using assms w Some l
      by (auto simp: generateDockerfile_def succeeded_def)
  qed
qed

lemma createArchive_loop_log:
  "createArchive_loop fs tw ps = (fs', tw', r) \<Longrightarrow>
   \<exists>evs. oplog fs' = oplog fs @ evs \<and> checked evs = evs \<and> files fs' = files fs
     \<and> returned_at_failure succeeded r evs \<and> artifacts_kept evs fs'"
proof (induction ps arbitrary: fs tw)
  case Nil
  then show ?case by (simp add: returned_at_failure_def checked_def)
next
  case (Cons p ps)
  let ?R = "returned_at_failure succeeded"
  let ?a = "tw_file tw"
  from Cons.prems show ?case
  proof (cases rule: createArchive_loop_cases)
    case (stat_err fs1 err)
    from os_Stat_log_Inl [OF stat_err(1)] obtain c where
      c: "err = PathError p c" and l1: "oplog fs1 = oplog fs @ [(OpStat, p, Some c)]" by blast
    have "?R (Some (Errorf ''failed to read file info %q: %w'' [Str p, Err err])) [(OpStat, p, Some c)]"
      by (rule returned_at_failure_single) (simp_all add: succeeded_def Unwrap_formats c)
    then show ?thesis using stat_err(2) l1 os_Stat_effect [OF stat_err(1)]
      by (auto simp: checked_def)
  next
    case (read_err fs1 sz fs2 err)
    note l1 = os_Stat_log_Inr [OF read_err(1)]
    from ioutil_ReadFile_log_Inl [OF read_err(2)] obtain c where
      c: "err = PathError p c" and l2: "oplog fs2 = oplog fs1 @ [(OpReadFile, p, Some c)]"
      and f2: "files fs2 = files fs1" by blast
    have f: "files fs2 = files fs" using os_Stat_effect [OF read_err(1)] f2 by simp
    let ?e = "Errorf ''failed to read file %q: %w'' [Str p, Err err]"
    have "succeeded (OpStat, p, None)" by (simp add: succeeded_def)
    moreover have "?R (Some ?e) [(OpReadFile, p, Some c)]"
      by (rule returned_at_failure_single) (simp_all add: succeeded_def Unwrap_formats c)
    ultimately have "?R (Some ?e) [(OpStat, p, None), (OpReadFile, p, Some c)]"
      by (rule returned_at_failure_Cons)
    then show ?thesis using read_err(3) l1 l2 f by (auto simp: checked_def)
  next
    case (header_err fs1 sz fs2 bs fs3 tw1 err)
    note l1 = os_Stat_log_Inr [OF header_err(1)]
    note l2 = ioutil_ReadFile_log_Inr [OF header_err(2)]
    from tw_WriteHeader_log_Some [OF header_err(3)] obtain c where
      c: "err = PathError ?a c" and l3: "oplog fs3 = oplog fs2 @ [(OpTarWriteHeader, ?a, Some c)]"
      and f3: "files fs3 = files fs2" by blast
    have f: "files fs3 = files fs"
      using os_Stat_effect [OF header_err(1)] ioutil_ReadFile_Inr [OF header_err(2)] f3 by auto
    let ?e = "Errorf ''failed to write tar header: %w'' [Err err]"
    have "?R (Some ?e) [(OpTarWriteHeader, ?a, Some c)]"
      by (rule returned_at_failure_single) (simp_all add: succeeded_def Unwrap_formats c)
    then have "?R (Some ?e) ((OpReadFile, p, None) # [(OpTarWriteHeader, ?a, Some c)])"
      by (rule returned_at_failure_Cons [rotated]) (simp add: succeeded_def)
    then have "?R (Some ?e)
        ((OpStat, p, None) # (OpReadFile, p, None) # [(OpTarWriteHeader, ?a, Some c)])"
      by (rule returned_at_failure_Cons [rotated]) (simp add: succeeded_def)
    then show ?thesis using header_err(4) l1 l2 l3 f by (auto simp: checked_def)
  next
    case (body_err fs1 sz fs2 bs fs3 tw1 fs4 tw2 err)
    note l1 = os_Stat_log_Inr [OF body_err(1)]
    note l2 = ioutil_ReadFile_log_Inr [OF body_err(2)]
    from tw_WriteHeader_log_None [OF body_err(3)]
    have l3: "oplog fs3 = oplog fs2 @ [(OpTarWriteHeader, ?a, None)]"
      and a1: "tw_file tw1 = ?a" by simp_all
    from tw_Write_log_Some [OF body_err(4)] a1 obtain c where
      c: "err = PathError ?a c" and l4: "oplog fs4 = oplog fs3 @ [(OpTarWrite, ?a, Some c)]"
      and f4: "files fs4 = files fs3" by auto
    have f: "files fs4 = files fs"
      using os_Stat_effect [OF body_err(1)] ioutil_ReadFile_Inr [OF body_err(2)]
        tw_WriteHeader_None [OF body_err(3)] f4 by auto
    let ?e = "Errorf ''failed to write tar body: %w'' [Err err]"
    have "?R (Some ?e) [(OpTarWrite, ?a, Some c)]"
      by (rule returned_at_failure_single) (simp_all add: succeeded_def Unwrap_formats c)
    then have "?R (Some ?e) ((OpTarWriteHeader, ?a, None) # [(OpTarWrite, ?a, Some c)])"
      by (rule returned_at_failure_Cons [rotated]) (simp add: succeeded_def)
    then have "?R (Some ?e)
        ((OpReadFile, p, None) # (OpTarWriteHeader, ?a, None) # [(OpTarWrite, ?a, Some c)])"
      by (rule returned_at_failure_Cons [rotated]) (simp add: succeeded_def)
    then have "?R (Some ?e)
        ((OpStat, p, None) # (OpReadFile, p, None) # (OpTarWriteHeader, ?a, None)
           # [(OpTarWrite, ?a, Some c)])"
      by (rule returned_at_failure_Cons [rotated]) (simp add: succeeded_def)
    then show ?thesis using body_err(5) l1 l2 l3 l4 f by (auto simp: checked_def)
  next
    case (added fs1 sz fs2 bs fs3 tw1 fs4 tw2)
    note l1 = os_Stat_log_Inr [OF added(1)]
    note l2 = ioutil_ReadFile_log_Inr [OF added(2)]
    from tw_WriteHeader_log_None [OF added(3)]
    have l3: "oplog fs3 = oplog fs2 @ [(OpTarWriteHeader, ?a, None)]"
      and a1: "tw_file tw1 = ?a" by simp_all
    from tw_Write_log_None [OF added(4)] a1
    have l4: "oplog fs4 = oplog fs3 @ [(OpTarWrite, ?a, None)]"
      and f4: "files fs4 = files fs3" by simp_all
    have f: "files fs4 = files fs"
      using os_Stat_effect [OF added(1)] ioutil_ReadFile_Inr [OF added(2)]
        tw_WriteHeader_None [OF added(3)] f4 by auto
    from Cons.IH [OF added(5)] obtain evs where
      e: "oplog fs' = oplog fs4 @ evs" "checked evs = evs" "files fs' = files fs4"
         "?R r evs" "artifacts_kept evs fs'" by blast
    let ?pre = "[(OpStat, p, None), (OpReadFile, p, None), (OpTarWriteHeader, ?a, None),
                 (OpTarWrite, ?a, None)]"
    have "?R r ((OpTarWrite, ?a, None) # evs)"
      by (rule returned_at_failure_Cons [OF _ e(4)]) (simp add: succeeded_def)
    then have "?R r ((OpTarWriteHeader, ?a, None) # (OpTarWrite, ?a, None) # evs)"
      by (rule returned_at_failure_Cons [rotated]) (simp add: succeeded_def)
    then have "?R r ((OpReadFile, p, None) # (OpTarWriteHeader, ?a, None)
                       # (OpTarWrite, ?a, None) # evs)"
      by (rule returned_at_failure_Cons [rotated]) (simp add: succeeded_def)
    then have "?R r ((OpStat, p, None) # (OpReadFile, p, None) # (OpTarWriteHeader, ?a, None)
                       # (OpTarWrite, ?a, None) # evs)"
      by (rule returned_at_failure_Cons [rotated]) (simp add: succeeded_def)
    then have A: "?R r (?pre @ evs)" by simp
    have B: "oplog fs' = oplog fs @ (?pre @ evs)" using e(1) l1 l2 l3 l4 by simp
    have C: "checked (?pre @ evs) = ?pre @ evs" using e(2) by (simp add: checked_def)
    have D: "files fs' = files fs" using e(3) f by simp
    have E: "artifacts_kept (?pre @ evs) fs'" using e(5) by simp
    show ?thesis by (rule exI [of _ "?pre @ evs"]) (intro conjI B C D A E)
  qed
qed

lemma artifacts_kept_files: "files a = files b \<Longrightarrow> artifacts_kept evs a = artifacts_kept evs b"
  by (simp add: artifacts_kept_def)

lemma createArchive_log:
  assumes "createArchive fs name ps = (fs', ar, r)"
  shows "\<exists>evs. oplog fs' = oplog fs @ evs
     \<and> returned_at_failure succeeded r (checked evs) \<and> artifacts_kept evs fs'"
proof -
  let ?R = "returned_at_failure succeeded"
  obtain fs1 c where c: "os_Create fs name = (fs1, c)" by (cases "os_Create fs name")
  show ?thesis
  proof (cases c)
    case (Some err)
    from os_Create_log_Some [OF c [unfolded Some]] obtain k where
      k: "err = PathError name k" and l1: "oplog fs1 = oplog fs @ [(OpCreate, name, Some k)]"
      by blast
    have "?R (Some (Errorf ''failed to create tar archive %q: %w'' [Str name, Err err]))
            [(OpCreate, name, Some k)]"
      by (rule returned_at_failure_single) (simp_all add: succeeded_def Unwrap_formats k)
    moreover have "artifacts_kept [(OpCreate, name, Some k)] fs1" by (simp add: succeeded_def)
    moreover have "checked [(OpCreate, name, Some k)] = [(OpCreate, name, Some k)]"
      by (simp add: checked_def)
    ultimately show ?thesis using assms c Some l1 by (auto simp: createArchive_def)
  next
    case None
    from os_Create_log_None [OF c [unfolded None]]
    have l1: "oplog fs1 = oplog fs @ [(OpCreate, name, None)]" and made: "files fs1 name \<noteq> None"
      by simp_all
    obtain fs2 tw2 r2 where l: "createArchive_loop fs1 (tar_NewWriter name) ps = (fs2, tw2, r2)"
      by (cases "createArchive_loop fs1 (tar_NewWriter name) ps")
    have res: "fs' = fst (tw_Close fs2 tw2)" "r = r2"
      using assms c None l by (simp_all add: createArchive_def)
    from createArchive_loop_log [OF l] obtain evs where
      e: "oplog fs2 = oplog fs1 @ evs" "checked evs = evs" "files fs2 = files fs1"
         "?R r2 evs" "artifacts_kept evs fs2" by blast
    from tw_Close_log [of fs2 tw2] obtain cl where
      cl: "oplog (fst (tw_Close fs2 tw2)) = oplog fs2 @ [(OpTarClose, tw_file tw2, cl)]" by blast
    let ?cl = "(OpTarClose, tw_file tw2, cl)"
    let ?all = "(OpCreate, name, None) # evs @ [?cl]"
    have ff: "files fs' = files fs2" using res(1) by (simp add: tw_Close_files)
    have A: "oplog fs' = oplog fs @ ?all"
      using res(1) e(1) l1 cl by simp
    have ch: "checked ?all = (OpCreate, name, None) # evs"
      using e(2) by (simp add: checked_def)
    have "?R r ((OpCreate, name, None) # evs)"
      unfolding res(2) by (rule returned_at_failure_Cons [OF _ e(4)]) (simp add: succeeded_def)
    then have B: "?R r (checked ?all)" using ch by simp
    have "files fs' name \<noteq> None" using made e(3) ff by simp
    moreover have "artifacts_kept evs fs'" using e(5) artifacts_kept_files [OF ff] by simp
    ultimately have C: "artifacts_kept ?all fs'" by simp
    show ?thesis by (rule exI [of _ ?all]) (intro conjI A B C)
  qed
qed

text \<open>
  C9, as amended. In the current variant, every failure of a filesystem operation whose
  result \<open>generateRandomFilePool\<close>, \<open>generateDockerfile\<close> or \<open>createArchive\<close> checks
  (making the directory, a stat that fails otherwise than with "does not exist" during pool
  generation, writing a pool file or the manifest, creating the archive file, the stat and
  the read of an archive member, writing a tar header or a tar body) is fatal: the
  function returns right after the failed operation, which is attempted once, with an
  error that wraps the operating system's error, so that it carries the path the
  operation was applied to and the underlying cause (for a tar header or body, the path
  is that of the archive file being written); every file written or created before stays
  on disk. Conversely a function that returns no error met no failure of a checked
  operation. The close of the tar writer, which writes the trailer of the archive, is not
  checked.
\<close>
theorem checked_failures_are_fatal:
  "(generateRandomFilePool L fs f layerSizeKB layerCount = Some (fs1, f1, r1) \<longrightarrow>
      (\<exists>evs. oplog fs1 = oplog fs @ evs
         \<and> returned_at_failure pool_benign r1 evs
         \<and> artifacts_kept evs fs1))
   \<and> (generateDockerfile fs filePaths = (fs2, d) \<longrightarrow>
      (\<exists>ev. oplog fs2 = oplog fs @ [ev]
         \<and> returned_at_failure succeeded (case d of Inl e \<Rightarrow> Some e | Inr n \<Rightarrow> None) [ev]
         \<and> artifacts_kept [ev] fs2))
   \<and> (createArchive fs name filePaths = (fs3, ar, r3) \<longrightarrow>
      (\<exists>evs. oplog fs3 = oplog fs @ evs
         \<and> returned_at_failure succeeded r3 (checked evs)
         \<and> artifacts_kept evs fs3))"
proof (intro conjI impI)
  assume "generateRandomFilePool L fs f layerSizeKB layerCount = Some (fs1, f1, r1)"
  then show "\<exists>evs. oplog fs1 = oplog fs @ evs
         \<and> returned_at_failure pool_benign r1 evs
         \<and> artifacts_kept evs fs1"
    by (rule generateRandomFilePool_log)
next
  assume "generateDockerfile fs filePaths = (fs2, d)"
  then show "\<exists>ev. oplog fs2 = oplog fs @ [ev]
         \<and> returned_at_failure succeeded (case d of Inl e \<Rightarrow> Some e | Inr n \<Rightarrow> None) [ev]
         \<and> artifacts_kept [ev] fs2"
    by (rule generateDockerfile_log)
next
  assume "createArchive fs name filePaths = (fs3, ar, r3)"
  then show "\<exists>evs. oplog fs3 = oplog fs @ evs
         \<and> returned_at_failure succeeded r3 (checked evs)
         \<and> artifacts_kept evs fs3"
    by (rule createArchive_log)
qed

lemma close_fails_result:
  "(case createArchive close_fails_fs ''context.tar'' [''a''] of
      (fs', ar, r) \<Rightarrow> (last (oplog fs'), map (hdr_Name \<circ> fst) ar, r))
   = ((OpTarClose, ''context.tar'', Some (Errno 28)), [''a''], None)"
  by code_simp

text \<open>
  C9 as stated fails: on a disk where the write of the trailer fails (errno 28) when the
  tar writer is closed, \<open>createArchive\<close> returns no error. The failure is the last
  operation of the call, and nothing reports it.
\<close>
theorem close_failure_is_dropped:
  "\<exists>fs' ar. createArchive close_fails_fs ''context.tar'' [''a''] = (fs', ar, None)
     \<and> last (oplog fs') = (OpTarClose, ''context.tar'', Some (Errno 28))"
proof -
  obtain fs' ar r where c: "createArchive close_fails_fs ''context.tar'' [''a''] = (fs', ar, r)"
    by (cases "createArchive close_fails_fs ''context.tar'' [''a'']")
  from close_fails_result c have "r = None"
    "last (oplog fs') = (OpTarClose, ''context.tar'', Some (Errno 28))" by simp_all
  with c show ?thesis by blast
qed

lemma failing_fs_results:
  "map_option (\<lambda>(fs', f', r). r)
     (generateRandomFilePool toy_lib failing_fs (NewRandomImageFactory toy_lib 7) 1 1)
   = Some (Some (Errorf ''error checking if file exists: %w''
                   [Err (PathError ''./generated-files/7/random_1KB_0.txt'' (Errno 13))]))"
  "snd (generateDockerfile failing_fs [''a''])
   = Inl (Errorf ''failed to write to %q: %w''
            [Str ''./dockerfile.generated'', Err (PathError ''./dockerfile.generated'' (Errno 13))])"
  "snd (snd (createArchive failing_fs ''context.tar'' [''a'']))
   = Some (Errorf ''failed to read file info %q: %w'' [Str ''a'', Err (PathError ''a'' (Errno 13))])"
  by code_simp+

theorem checked_failures_are_fatal_witness:
  "\<exists>fs1 f1 e1 fs2 e2 fs3 ar e3.
     generateRandomFilePool toy_lib failing_fs (NewRandomImageFactory toy_lib 7) 1 1
       = Some (fs1, f1, Some e1)
     \<and> generateDockerfile failing_fs [''a''] = (fs2, Inl e2)
     \<and> createArchive failing_fs ''context.tar'' [''a''] = (fs3, ar, Some e3)
     \<and> (\<exists>evs. oplog fs1 = oplog failing_fs @ evs
         \<and> returned_at_failure pool_benign (Some e1) evs
         \<and> artifacts_kept evs fs1)
     \<and> (\<exists>ev. oplog fs2 = oplog failing_fs @ [ev]
         \<and> returned_at_failure succeeded (Some e2) [ev]
         \<and> artifacts_kept [ev] fs2)
     \<and> (\<exists>evs. oplog fs3 = oplog failing_fs @ evs
         \<and> returned_at_failure succeeded (Some e3) (checked evs)
         \<and> artifacts_kept evs fs3)"
proof -
  let ?F = "NewRandomImageFactory toy_lib 7"
  from failing_fs_results(1) obtain fs1 f1 e1 where
    a: "generateRandomFilePool toy_lib failing_fs ?F 1 1 = Some (fs1, f1, Some e1)"
    by (cases "generateRandomFilePool toy_lib failing_fs ?F 1 1") auto
  from failing_fs_results(2) obtain fs2 e2 where
    b: "generateDockerfile failing_fs [''a''] = (fs2, Inl e2)"
    by (cases "generateDockerfile failing_fs [''a'']") auto
  from failing_fs_results(3) obtain fs3 ar e3 where
    c: "createArchive failing_fs ''context.tar'' [''a''] = (fs3, ar, Some e3)"
    by (cases "createArchive failing_fs ''context.tar'' [''a'']") auto
  note t = checked_failures_are_fatal [of toy_lib failing_fs ?F 1 1 fs1 f1 "Some e1" "[''a'']" fs2
      "Inl e2" "''context.tar''" fs3 ar "Some e3"]
  from t a have A: "\<exists>evs. oplog fs1 = oplog failing_fs @ evs
         \<and> returned_at_failure pool_benign (Some e1) evs
         \<and> artifacts_kept evs fs1" by (elim conjE) simp
  from t b have B: "\<exists>ev. oplog fs2 = oplog failing_fs @ [ev]
         \<and> returned_at_failure succeeded (Some e2) [ev]
         \<and> artifacts_kept [ev] fs2" by (elim conjE) simp
  from t c have C: "\<exists>evs. oplog fs3 = oplog failing_fs @ evs
         \<and> returned_at_failure succeeded (Some e3) (checked evs)
         \<and> artifacts_kept evs fs3" by (elim conjE) simp
  show ?thesis
    by (intro exI [of _ fs1] exI [of _ f1] exI [of _ e1] exI [of _ fs2] exI [of _ e2]
        exI [of _ fs3] exI [of _ ar] exI [of _ e3] conjI a b c A B C)
qed

text \<open>
  The older \<open>createArchive\<close> passes one operand to a format with two verbs: \<open>%q\<close>
  consumes the error of the failed stat, \<open>%w\<close> gets none, and the error returned wraps
  nothing.
\<close>

lemma legacy_archive_stat_error:
  "snd (snd (createArchive_legacy failing_fs ''context.tar'' [''a'']))
   = Some (Errorf ''failed to read file info %q: %w'' [Err (PathError ''a'' (Errno 13))])"
  "map_option Unwrap (snd (snd (createArchive_legacy failing_fs ''context.tar'' [''a''])))
   = Some None"
  by code_simp+

section \<open>Runs that succeed\<close>

lemma randBytes_returns:
  assumes "0 \<le> n" and "productive (draws (src f))"
  shows "\<exists>bs f'. randBytes n f = Some (Inr (bs, f')) \<and> int (length bs) = n
     \<and> draws (src f') = draws (src f) \<and> imageDir f' = imageDir f
     \<and> allGeneratedFiles f' = allGeneratedFiles f"
proof -
  from randBytes_from_returns [OF assms] obtain bs r' where
    r: "randBytes_from n (src f) = Some (Inr (bs, r'))" "int (length bs) = n"
       "draws r' = draws (src f)" by blast
  have "randBytes n f = Some (Inr (bs, f\<lparr>src := r'\<rparr>))" using r(1) by (simp add: randBytes_def)
  then show ?thesis using r(2,3) by simp
qed

text \<open>
  Pool generation returns, and without an error, when no operation of the disk fails,
  the source is productive and the file length is not negative.
\<close>

lemma pool_loop_succeeds:
  "\<forall>t op p. faults fs t op p = None \<Longrightarrow> productive (draws (src f))
   \<Longrightarrow> 0 \<le> poolFileLen sz
   \<Longrightarrow> \<exists>fs' f'. pool_loop L sz cnt i fs f = Some (fs', f', None) \<and> faults fs' = faults fs
         \<and> draws (src f') = draws (src f)"
proof (induction "cnt - i" arbitrary: i fs f)
  case 0
  then have "\<not> i < cnt" by simp
  then have "pool_loop L sz cnt i fs f = Some (fs, f, None)" by (rule pool_loop_done)
  then show ?case by blast
next
  case (Suc d)
  then have lt: "i < cnt" by simp
  let ?p = "poolPath L (imageDir f) sz i"
  let ?f1 = "f\<lparr>allGeneratedFiles := allGeneratedFiles f @ [?p]\<rparr>"
  have d: "d = cnt - Suc i" using Suc.hyps(2) by simp
  have p1: "productive (draws (src ?f1))" using Suc.prems(2) by simp
  have nf: "fault fs OpStat ?p = None" using Suc.prems(1) by (simp add: fault_def)
  from os_Stat_no_fault [OF nf] show ?case
  proof (elim disjE exE conjE)
    fix fs1 info assume st: "os_Stat fs ?p = (fs1, Inr info)" and ff: "faults fs1 = faults fs"
    have u: "pool_loop L sz cnt i fs f = pool_loop L sz cnt (Suc i) fs1 ?f1"
      using lt st by (subst pool_loop.simps) (simp add: Let_def)
    have "\<exists>fs' f'. pool_loop L sz cnt (Suc i) fs1 ?f1 = Some (fs', f', None)
        \<and> faults fs' = faults fs1 \<and> draws (src f') = draws (src ?f1)"
      by (rule Suc.hyps(1) [OF d _ p1 Suc.prems(3)]) (use ff Suc.prems(1) in simp)
    then show ?thesis using u ff by simp
  next
    fix fs1 assume st: "os_Stat fs ?p = (fs1, Inl (PathError ?p ErrNotExist))"
      and ff: "faults fs1 = faults fs"
    from randBytes_returns [OF Suc.prems(3) p1] obtain bs f2 where
      rb: "randBytes (poolFileLen sz) ?f1 = Some (Inr (bs, f2))"
      and f2: "draws (src f2) = draws (src ?f1)" by blast
    have "fault fs1 OpWriteFile ?p = None" using ff Suc.prems(1) by (simp add: fault_def)
    from ioutil_WriteFile_no_fault [OF this] obtain fs2 where
      w: "ioutil_WriteFile fs1 ?p bs = (fs2, None)" and ff2: "faults fs2 = faults fs1" by blast
    have u: "pool_loop L sz cnt i fs f = pool_loop L sz cnt (Suc i) fs2 f2"
      using lt st rb w by (subst pool_loop.simps) (simp add: Let_def)
    have p2: "productive (draws (src f2))" using f2 Suc.prems(2) by simp
    have "\<exists>fs' f'. pool_loop L sz cnt (Suc i) fs2 f2 = Some (fs', f', None)
        \<and> faults fs' = faults fs2 \<and> draws (src f') = draws (src f2)"
      by (rule Suc.hyps(1) [OF d _ p2 Suc.prems(3)]) (use ff ff2 Suc.prems(1) in simp)
    then show ?thesis using u ff ff2 f2 by simp
  qed
qed

lemma generateRandomFilePool_succeeds:
  assumes "\<forall>t op p. faults fs t op p = None" and "productive (draws (src f))"
    and "0 \<le> poolFileLen sz"
  shows "\<exists>fs' f'. generateRandomFilePool L fs f sz cnt = Some (fs', f', None)
     \<and> faults fs' = faults fs"
proof -
  have "fault fs OpMkdirAll (imageDir f) = None" using assms(1) by (simp add: fault_def)
  from os_MkdirAll_no_fault [OF this] obtain fs1 where
    m: "os_MkdirAll fs (imageDir f) = (fs1, None)" "faults fs1 = faults fs" by blast
  have "\<exists>fs' f'. pool_loop L sz (unat cnt) 0 fs1 f = Some (fs', f', None) \<and> faults fs' = faults fs1
         \<and> draws (src f') = draws (src f)"
    by (rule pool_loop_succeeds) (use m(2) assms in simp_all)
  then show ?thesis using m by (auto simp: generateRandomFilePool_def)
qed

lemma createArchive_loop_succeeds:
  "\<forall>t op p. faults fs t op p = None \<Longrightarrow> \<forall>p\<in>set ps. files fs p \<noteq> None
   \<Longrightarrow> \<exists>fs' tw'. createArchive_loop fs tw ps = (fs', tw', None) \<and> faults fs' = faults fs
         \<and> files fs' = files fs"
proof (induction ps arbitrary: fs tw)
  case Nil
  have "createArchive_loop fs tw [] = (fs, tw, None)" by simp
  then show ?case by blast
next
  case (Cons p ps)
  from Cons.prems(2) obtain fl where fl: "files fs p = Some fl" by auto
  let ?a = "tw_file tw"
  let ?h = "\<lparr>hdr_Name = p, hdr_Mode = 384, hdr_Size = int (length (content fl))\<rparr>"
  let ?tw1 = "tw\<lparr>tw_entries := tw_entries tw @ [(?h, [])]\<rparr>"
  let ?tw2 = "tw\<lparr>tw_entries := tw_entries tw @ [(?h, content fl)]\<rparr>"
  let ?fs1 = "logged fs OpStat p None"
  let ?fs2 = "logged ?fs1 OpReadFile p None"
  let ?fs3 = "logged ?fs2 OpTarWriteHeader ?a None"
  let ?fs4 = "logged ?fs3 OpTarWrite ?a None"
  have nf: "\<And>op q. fault fs op q = None" "\<And>op q. fault ?fs1 op q = None"
    "\<And>op q. fault ?fs2 op q = None" "\<And>op q. fault ?fs3 op q = None"
    using Cons.prems(1) by (simp_all add: fault_def logged_def)
  have st: "os_Stat fs p = (?fs1, Inr (int (length (content fl))))"
    using fl nf(1) by (simp add: os_Stat_def)
  have rd: "ioutil_ReadFile ?fs1 p = (?fs2, Inr (content fl))"
    using fl nf(2) by (simp add: ioutil_ReadFile_def logged_def)
  have wh: "tw_WriteHeader ?fs2 tw ?h = (?fs3, ?tw1, None)"
    using nf(3) by (simp add: tw_WriteHeader_def)
  have wr: "tw_Write ?fs3 ?tw1 (content fl) = (?fs4, ?tw2, None)"
    using nf(4) by (simp add: tw_Write_def)
  have u: "createArchive_loop fs tw (p # ps) = createArchive_loop ?fs4 ?tw2 ps"
    using st rd wh wr by simp
  have f4: "faults ?fs4 = faults fs" "files ?fs4 = files fs" by (simp_all add: logged_def)
  have "\<exists>fs' tw'. createArchive_loop ?fs4 ?tw2 ps = (fs', tw', None)
      \<and> faults fs' = faults ?fs4 \<and> files fs' = files ?fs4"
  proof (rule Cons.IH)
    show "\<forall>t op p. faults ?fs4 t op p = None" using Cons.prems(1) f4 by simp
    show "\<forall>p\<in>set ps. files ?fs4 p \<noteq> None" using Cons.prems(2) f4 by simp
  qed
  then show ?case using u f4 by simp
qed

lemma generateDockerfile_no_fault:
  "fault fs OpWriteFile dockerfileName = None \<Longrightarrow>
   \<exists>fs1. generateDockerfile fs ps = (fs1, Inr dockerfileName) \<and> faults fs1 = faults fs
     \<and> (\<forall>p. files fs p \<noteq> None \<longrightarrow> files fs1 p \<noteq> None) \<and> files fs1 dockerfileName \<noteq> None"
  by (simp add: generateDockerfile_def ioutil_WriteFile_def logged_def)

lemma os_Create_no_fault:
  "fault fs OpCreate p = None \<Longrightarrow>
   \<exists>fs1. os_Create fs p = (fs1, None) \<and> faults fs1 = faults fs
     \<and> (\<forall>q. files fs q \<noteq> None \<longrightarrow> files fs1 q \<noteq> None) \<and> files fs1 p \<noteq> None"
  by (simp add: os_Create_def logged_def)

lemma tw_Close_faults: "faults (fst (tw_Close fs tw)) = faults fs"
  by (auto simp: tw_Close_def logged_def split: option.splits)

lemma createArchive_succeeds:
  assumes nf: "\<forall>t op p. faults fs t op p = None" and ex: "\<forall>p\<in>set ps. files fs p \<noteq> None"
  shows "\<exists>fs' ar. createArchive fs name ps = (fs', ar, None) \<and> faults fs' = faults fs
     \<and> files fs' name \<noteq> None"
proof -
  have "fault fs OpCreate name = None" using nf by (simp add: fault_def)
  from os_Create_no_fault [OF this] obtain fs1 where
    c: "os_Create fs name = (fs1, None)" "faults fs1 = faults fs"
       "\<forall>q. files fs q \<noteq> None \<longrightarrow> files fs1 q \<noteq> None" "files fs1 name \<noteq> None" by blast
  have "\<exists>fs2 tw. createArchive_loop fs1 (tar_NewWriter name) ps = (fs2, tw, None)
      \<and> faults fs2 = faults fs1 \<and> files fs2 = files fs1"
    by (rule createArchive_loop_succeeds) (use c nf ex in auto)
  then obtain fs2 tw where l: "createArchive_loop fs1 (tar_NewWriter name) ps = (fs2, tw, None)"
    "faults fs2 = faults fs1" "files fs2 = files fs1" by blast
  have "createArchive fs name ps = (fst (tw_Close fs2 tw), tw_entries tw, None)"
    using c(1) l(1) by (simp add: createArchive_def)
  moreover have "faults (fst (tw_Close fs2 tw)) = faults fs"
    using l(2) c(2) by (simp add: tw_Close_faults)
  moreover have "files (fst (tw_Close fs2 tw)) name \<noteq> None"
    using l(3) c(4) by (simp add: tw_Close_files)
  ultimately show ?thesis by blast
qed

lemma shuffleGeneratedFilePaths_ok:
  assumes "intn_ok (rand_Intn L)"
  shows "\<exists>f'. shuffleGeneratedFilePaths L f = Inr f'
     \<and> mset (allGeneratedFiles f') = mset (allGeneratedFiles f)"
proof -
  from shuffle_loop_ok [OF assms, of 0 "allGeneratedFiles f" "src f"] obtain ys r' where
    h: "shuffle_loop (rand_Intn L) 0 (allGeneratedFiles f) (src f) = Inr (ys, r')"
       "mset ys = mset (allGeneratedFiles f)" by auto
  have "shuffleGeneratedFilePaths L f = Inr (f\<lparr>src := r', allGeneratedFiles := ys\<rparr>)"
    using h(1) by (simp add: shuffleGeneratedFilePaths_def)
  then show ?thesis using h(2) by simp
qed

text \<open>
  A whole run returns without an error when no operation of the disk fails, the source is
  productive, \<open>Intn\<close> keeps its contract, the file length is not negative, the factory
  is new and the daemon accepts the archive.
\<close>

lemma GenerateImage_succeeds:
  assumes nf: "\<forall>t op p. faults fs t op p = None" and pr: "productive (draws (src f))"
    and len: "0 \<le> poolFileLen sz" and intn: "intn_ok (rand_Intn L)"
    and fresh: "allGeneratedFiles f = []"
    and dc: "docker_NewEnvClient D = None" and db: "\<forall>tw d t. docker_ImageBuild D tw d t = None"
  shows "\<exists>fs' f' tw. GenerateImage L D fs f sz cnt tags = Some (fs', f', tw, None)"
proof -
  from generateRandomFilePool_succeeds [OF nf pr len] obtain fs1 f1 where
    p: "generateRandomFilePool L fs f sz cnt = Some (fs1, f1, None)" "faults fs1 = faults fs"
    by blast
  from generateRandomFilePool_success [OF p(1)] obtain fs0 where
    l: "pool_loop L sz (unat cnt) 0 fs0 f = Some (fs1, f1, None)" by blast
  from pool_loop_paths [OF l] fresh
  have paths: "allGeneratedFiles f1 = map (poolPath L (imageDir f) sz) [0..<unat cnt]" by simp
  have ex1: "\<forall>q\<in>set (allGeneratedFiles f1). files fs1 q \<noteq> None"
  proof
    fix q assume "q \<in> set (allGeneratedFiles f1)"
    then obtain j where j: "j < unat cnt" "q = poolPath L (imageDir f) sz j"
      using paths by auto
    from pool_loop_creates [OF l _ j(1)] have "q \<in> dom (files fs1)" using j(2) by simp
    then show "files fs1 q \<noteq> None" by auto
  qed
  from shuffleGeneratedFilePaths_ok [OF intn, of f1] obtain f2 where
    s: "shuffleGeneratedFilePaths L f1 = Inr f2"
       "mset (allGeneratedFiles f2) = mset (allGeneratedFiles f1)" by blast
  have set2: "set (allGeneratedFiles f2) = set (allGeneratedFiles f1)"
    using s(2) by (rule mset_eq_setD)
  have "fault fs1 OpWriteFile dockerfileName = None" using nf p(2) by (simp add: fault_def)
  from generateDockerfile_no_fault [OF this, of "allGeneratedFiles f2"] obtain fs2 where
    g: "generateDockerfile fs1 (allGeneratedFiles f2) = (fs2, Inr dockerfileName)"
       "faults fs2 = faults fs1" "\<forall>p. files fs1 p \<noteq> None \<longrightarrow> files fs2 p \<noteq> None"
       "files fs2 dockerfileName \<noteq> None" by blast
  let ?tar = "path_Join L (env_PWD L) ''context.tar''"
  have nf2: "\<forall>t op p. faults fs2 t op p = None" using nf p(2) g(2) by simp
  have ex2: "\<forall>q\<in>set (allGeneratedFiles f2 @ [dockerfileName]). files fs2 q \<noteq> None"
    using ex1 set2 g(3,4) by auto
  from createArchive_succeeds [OF nf2 ex2, of ?tar] obtain fs3 tw where
    a: "createArchive fs2 ?tar (allGeneratedFiles f2 @ [dockerfileName]) = (fs3, tw, None)"
       "faults fs3 = faults fs2" "files fs3 ?tar \<noteq> None" by blast
  from a(3) obtain fl where fl: "files fs3 ?tar = Some fl" by auto
  have "fault fs3 OpOpen ?tar = None" using nf2 a(2) by (simp add: fault_def)
  then have o: "os_Open fs3 ?tar = (logged fs3 OpOpen ?tar None, None)"
    using fl by (simp add: os_Open_def)
  have "GenerateImage L D fs f sz cnt tags = Some (logged fs3 OpOpen ?tar None, f2, tw, None)"
    using p(1) s(1) g(1) a(1) dc o db by (simp add: GenerateImage_def Let_def)
  then show ?thesis by blast
qed

lemma alt_run_inputs:
  "\<forall>t op p. faults empty_fs t op p = None"
  "productive (draws (src (NewRandomImageFactory alt_lib seed)))"
  "0 \<le> poolFileLen 1"
  "intn_ok (rand_Intn alt_lib)"
  "allGeneratedFiles (NewRandomImageFactory alt_lib seed) = []"
  "docker_NewEnvClient toy_docker = None"
  "\<forall>tw d t. docker_ImageBuild toy_docker tw d t = None"
  using productive_alt_source intn_ok_toy
  by (simp_all add: empty_fs_def NewRandomImageFactory_def rand_New_def alt_lib_def
      poolFileLen_1 toy_docker_def)

lemma other_fs_inputs:
  "\<forall>t op p. faults other_fs t op p = None"
  "files other_fs (poolPath alt_lib (imageDir (NewRandomImageFactory alt_lib seed)) sz k) = None"
  "files empty_fs p = None"
  by (simp_all add: other_fs_def empty_fs_def poolPath_def NewRandomImageFactory_def alt_lib_def
      toy_lib_def baseImageDir_def)

theorem archive_entries_witness:
  "\<exists>fs' f' ar.
     GenerateImage alt_lib toy_docker empty_fs (NewRandomImageFactory alt_lib 4848484) 1 2 []
       = Some (fs', f', ar, None)
     \<and> allGeneratedFiles (NewRandomImageFactory alt_lib 4848484) = []
     \<and> length ar = unat (2 :: uint) + 1
     \<and> map (hdr_Name \<circ> fst) ar = allGeneratedFiles f' @ [dockerfileName]
     \<and> mset (allGeneratedFiles f')
         = mset (map (poolPath alt_lib (imageDir (NewRandomImageFactory alt_lib 4848484)) 1)
                  [0..<unat (2 :: uint)])
     \<and> (\<forall>e\<in>set ar. hdr_Size (fst e) = int (length (snd e))
           \<and> map_option content (files fs' (hdr_Name (fst e))) = Some (snd e))"
proof -
  let ?f = "NewRandomImageFactory alt_lib 4848484"
  have "\<exists>fs' f' ar. GenerateImage alt_lib toy_docker empty_fs ?f 1 2 [] = Some (fs', f', ar, None)"
    by (rule GenerateImage_succeeds) (rule alt_run_inputs)+
  then obtain fs' f' ar where
    run: "GenerateImage alt_lib toy_docker empty_fs ?f 1 2 [] = Some (fs', f', ar, None)"
    by blast
  note fresh = alt_run_inputs(5) [of 4848484]
  from archive_entries [OF run] fresh have
    t: "length ar = unat (2 :: uint) + 1"
       "map (hdr_Name \<circ> fst) ar = allGeneratedFiles f' @ [dockerfileName]"
       "mset (allGeneratedFiles f')
         = mset (map (poolPath alt_lib (imageDir ?f) 1) [0..<unat (2 :: uint)])"
       "\<forall>e\<in>set ar. hdr_Size (fst e) = int (length (snd e))
           \<and> map_option content (files fs' (hdr_Name (fst e))) = Some (snd e)"
    by simp_all
  from run fresh t show ?thesis by blast
qed

theorem pool_generation_idempotent_witness:
  "\<exists>fs1 f1.
     generateRandomFilePool alt_lib empty_fs (NewRandomImageFactory alt_lib 4848484) 1 2
       = Some (fs1, f1, None)
     \<and> imageDir f1 = imageDir (NewRandomImageFactory alt_lib 4848484)
     \<and> (\<exists>fs2 g2 e. generateRandomFilePool alt_lib fs1 f1 1 2 = Some (fs2, g2, e)
            \<and> files fs2 = files fs1 \<and> writes fs2 = writes fs1 \<and> src g2 = src f1)"
proof -
  let ?f = "NewRandomImageFactory alt_lib 4848484"
  have "\<exists>fs1 f1. generateRandomFilePool alt_lib empty_fs ?f 1 2 = Some (fs1, f1, None)
      \<and> faults fs1 = faults empty_fs"
    by (rule generateRandomFilePool_succeeds) (rule alt_run_inputs)+
  then obtain fs1 f1 where run: "generateRandomFilePool alt_lib empty_fs ?f 1 2 = Some (fs1, f1, None)"
    by blast
  from generateRandomFilePool_success [OF run] obtain fs0 where
    "pool_loop alt_lib 1 (unat (2::uint)) 0 fs0 ?f = Some (fs1, f1, None)" by blast
  from pool_loop_paths [OF this] have dir: "imageDir f1 = imageDir ?f" by simp
  from run dir pool_generation_idempotent [OF run dir] show ?thesis by blast
qed

text \<open>
  Two new factories of one seed, one run on the empty disk and one on a disk with a
  history and a file outside the pool: both disks hold none of the pool files.
\<close>

lemma two_disks_runs:
  "\<exists>fsA' fA fsB' fB.
     generateRandomFilePool alt_lib empty_fs (NewRandomImageFactory alt_lib 4848484) 1 2
       = Some (fsA', fA, None)
     \<and> generateRandomFilePool alt_lib other_fs (NewRandomImageFactory alt_lib 4848484) 1 2
       = Some (fsB', fB, None)"
proof -
  let ?f = "NewRandomImageFactory alt_lib 4848484"
  have "\<exists>fs1 f1. generateRandomFilePool alt_lib empty_fs ?f 1 2 = Some (fs1, f1, None)
      \<and> faults fs1 = faults empty_fs"
    by (rule generateRandomFilePool_succeeds) (rule alt_run_inputs)+
  moreover have "\<exists>fs1 f1. generateRandomFilePool alt_lib other_fs ?f 1 2 = Some (fs1, f1, None)
      \<and> faults fs1 = faults other_fs"
    by (rule generateRandomFilePool_succeeds) (rule other_fs_inputs alt_run_inputs)+
  ultimately show ?thesis by blast
qed

lemma two_disks_same_pool_files:
  "same_pool_files alt_lib (imageDir (NewRandomImageFactory alt_lib 4848484)) 1 (unat (2 :: uint))
     empty_fs other_fs"
  unfolding same_pool_files_def by (simp only: other_fs_inputs simp_thms)

lemma same_stream_alt:
  "same_stream (src factory_a) (src (factory_a\<lparr>src := \<lparr>draws = alt_source, pos = 2\<rparr>\<rparr>))"
  by (simp add: same_stream_def factory_a_def rand_New_def alt_source_def)

theorem randBytes_deterministic_witness:
  "\<exists>fsA' fA fsB' fB bs.
     same_stream (src factory_a) (src (factory_a\<lparr>src := \<lparr>draws = alt_source, pos = 2\<rparr>\<rparr>))
     \<and> src factory_a \<noteq> src (factory_a\<lparr>src := \<lparr>draws = alt_source, pos = 2\<rparr>\<rparr>)
     \<and> map_option (map_sum id fst) (randBytes 4 factory_a)
         = map_option (map_sum id fst)
             (randBytes 4 (factory_a\<lparr>src := \<lparr>draws = alt_source, pos = 2\<rparr>\<rparr>))
     \<and> Seed legacy_a = 4848484
     \<and> randBytes_legacy alt_lib 4 legacy_a
         = map_option (map_sum id fst) (randBytes 4 (NewRandomImageFactory alt_lib 4848484))
     \<and> generateRandomFilePool alt_lib empty_fs (NewRandomImageFactory alt_lib 4848484) 1 2
         = Some (fsA', fA, None)
     \<and> generateRandomFilePool alt_lib other_fs (NewRandomImageFactory alt_lib 4848484) 1 2
         = Some (fsB', fB, None)
     \<and> same_pool_files alt_lib (imageDir (NewRandomImageFactory alt_lib 4848484)) 1
         (unat (2 :: uint)) empty_fs other_fs
     \<and> (1 :: nat) < unat (2 :: uint)
     \<and> files empty_fs (poolPath alt_lib (imageDir (NewRandomImageFactory alt_lib 4848484)) 1 1)
         = None
     \<and> map_option content
         (files fsA' (poolPath alt_lib (imageDir (NewRandomImageFactory alt_lib 4848484)) 1 1))
         = Some bs
     \<and> map_option content
         (files fsB' (poolPath alt_lib (imageDir (NewRandomImageFactory alt_lib 4848484)) 1 1))
         = Some bs"
proof -
  let ?f = "NewRandomImageFactory alt_lib 4848484"
  let ?f2 = "factory_a\<lparr>src := \<lparr>draws = alt_source, pos = 2\<rparr>\<rparr>"
  from two_disks_runs obtain fsA' fA fsB' fB where
    a: "generateRandomFilePool alt_lib empty_fs ?f 1 2 = Some (fsA', fA, None)"
    and b: "generateRandomFilePool alt_lib other_fs ?f 1 2 = Some (fsB', fB, None)" by blast
  note t = randBytes_deterministic [of factory_a ?f2 4 legacy_a 4848484 alt_lib empty_fs 1 2
      fsA' fA other_fs fsB' fB 1]
  have ne: "src factory_a \<noteq> src ?f2" by (simp add: factory_a_def rand_New_def)
  have s: "Seed legacy_a = 4848484" by (simp add: legacy_a_def)
  have k: "(1 :: nat) < unat (2 :: uint)" by simp
  note n = other_fs_inputs(3) [of "poolPath alt_lib (imageDir ?f) 1 1"]
  from t same_stream_alt have A: "map_option (map_sum id fst) (randBytes 4 factory_a)
         = map_option (map_sum id fst) (randBytes 4 ?f2)" by (elim conjE) simp
  from t s have B: "randBytes_legacy alt_lib 4 legacy_a
         = map_option (map_sum id fst) (randBytes 4 ?f)" by (elim conjE) simp
  from t a b two_disks_same_pool_files k n obtain bs where
    C: "map_option content (files fsA' (poolPath alt_lib (imageDir ?f) 1 1)) = Some bs"
       "map_option content (files fsB' (poolPath alt_lib (imageDir ?f) 1 1)) = Some bs"
    by (elim conjE) blast
  show ?thesis
    by (intro exI [of _ fsA'] exI [of _ fA] exI [of _ fsB'] exI [of _ fB] exI [of _ bs] conjI
        same_stream_alt ne A s B a b two_disks_same_pool_files k n C)
qed

theorem shuffle_deterministic_witness:
  "\<exists>fsA' fA fsB' fB.
     generateRandomFilePool alt_lib empty_fs (NewRandomImageFactory alt_lib 4848484) 1 2
         = Some (fsA', fA, None)
     \<and> generateRandomFilePool alt_lib other_fs (NewRandomImageFactory alt_lib 4848484) 1 2
         = Some (fsB', fB, None)
     \<and> same_pool_files alt_lib (imageDir (NewRandomImageFactory alt_lib 4848484)) 1
         (unat (2 :: uint)) empty_fs other_fs
     \<and> src fA = src fB \<and> allGeneratedFiles fA = allGeneratedFiles fB
     \<and> map_sum id allGeneratedFiles (shuffleGeneratedFilePaths alt_lib fA)
         = map_sum id allGeneratedFiles (shuffleGeneratedFilePaths alt_lib fB)
     \<and> Seed legacy_a \<noteq> Seed legacy_b
     \<and> allGeneratedFiles_legacy legacy_a = allGeneratedFiles_legacy legacy_b
     \<and> map_sum id (\<lambda>(f', r). (allGeneratedFiles_legacy f', r))
          (shuffleGeneratedFilePaths_legacy alt_lib (rand_New alt_source) legacy_a)
       = map_sum id (\<lambda>(f', r). (allGeneratedFiles_legacy f', r))
          (shuffleGeneratedFilePaths_legacy alt_lib (rand_New alt_source) legacy_b)"
proof -
  let ?f = "NewRandomImageFactory alt_lib 4848484"
  from two_disks_runs obtain fsA' fA fsB' fB where
    a: "generateRandomFilePool alt_lib empty_fs ?f 1 2 = Some (fsA', fA, None)"
    and b: "generateRandomFilePool alt_lib other_fs ?f 1 2 = Some (fsB', fB, None)" by blast
  note t = shuffle_deterministic [of alt_lib empty_fs 4848484 1 2 fsA' fA other_fs fsB' fB
      legacy_a legacy_b "rand_New alt_source"]
  have sd: "Seed legacy_a \<noteq> Seed legacy_b" by (simp add: legacy_a_def legacy_b_def)
  have l: "allGeneratedFiles_legacy legacy_a = allGeneratedFiles_legacy legacy_b"
    by (simp add: legacy_a_def legacy_b_def)
  from t a b two_disks_same_pool_files have
    A: "src fA = src fB" "allGeneratedFiles fA = allGeneratedFiles fB"
       "map_sum id allGeneratedFiles (shuffleGeneratedFilePaths alt_lib fA)
         = map_sum id allGeneratedFiles (shuffleGeneratedFilePaths alt_lib fB)"
    by (elim conjE, simp)+
  from t l have B: "map_sum id (\<lambda>(f', r). (allGeneratedFiles_legacy f', r))
          (shuffleGeneratedFilePaths_legacy alt_lib (rand_New alt_source) legacy_a)
       = map_sum id (\<lambda>(f', r). (allGeneratedFiles_legacy f', r))
          (shuffleGeneratedFilePaths_legacy alt_lib (rand_New alt_source) legacy_b)"
    by (elim conjE) simp
  show ?thesis
    by (intro exI [of _ fsA'] exI [of _ fA] exI [of _ fsB'] exI [of _ fB] conjI
        a b two_disks_same_pool_files A sd l B)
qed

end
